theory Spec2Isabelle
  imports Main "HOL-Library.AList" "HOL-Library.Sublist"
begin

section \<open>Strings and timestamps\<close>

text \<open>
  The engine names every backup version by \<open>generateTimestamp()\<close>, which reads the
  clock (\<open>new Date()\<close>) and prints the local-time getters of the Date. A Date is modelled
  by the values its local-time getters return.
\<close>

record date =
  getFullYear :: int
  getMonth :: nat
  getDate :: nat
  getHours :: nat
  getMinutes :: nat
  getSeconds :: nat
  getMilliseconds :: nat

text \<open>The ranges of the getters of a valid Date (months count from 0).\<close>

definition validDate :: "date \<Rightarrow> bool" where
  "validDate d = (getMonth d \<le> 11 \<and> 1 \<le> getDate d \<and> getDate d \<le> 31 \<and> getHours d \<le> 23 \<and>
     getMinutes d \<le> 59 \<and> getSeconds d \<le> 59 \<and> getMilliseconds d \<le> 999)"

definition digit :: "nat \<Rightarrow> char" where
  "digit n = ''0123456789'' ! n"

text \<open>\<open>String(n)\<close> for an integer: its decimal digits, with a minus sign when negative.\<close>

fun natToString :: "nat \<Rightarrow> string" where
  "natToString n = (if n < 10 then [digit n] else natToString (n div 10) @ [digit (n mod 10)])"

declare natToString.simps [simp del]

definition intToString :: "int \<Rightarrow> string" where
  "intToString i = (if i < 0 then CHR ''-'' # natToString (nat (- i)) else natToString (nat i))"

text \<open>\<open>s.padStart(k, c)\<close> with a one-character pad.\<close>

definition padStart :: "nat \<Rightarrow> char \<Rightarrow> string \<Rightarrow> string" where
  "padStart k c s = replicate (k - length s) c @ s"

definition generateTimestamp :: "date \<Rightarrow> string" where
  "generateTimestamp now =
     (let year = intToString (getFullYear now);
          month = padStart 2 (CHR ''0'') (natToString (getMonth now + 1));
          day = padStart 2 (CHR ''0'') (natToString (getDate now));
          hours = padStart 2 (CHR ''0'') (natToString (getHours now));
          minutes = padStart 2 (CHR ''0'') (natToString (getMinutes now));
          seconds = padStart 2 (CHR ''0'') (natToString (getSeconds now));
          milliseconds = padStart 3 (CHR ''0'') (natToString (getMilliseconds now))
      in year @ month @ day @ ''-'' @ hours @ minutes @ seconds @ ''-'' @ milliseconds)"

text \<open>Lexicographic comparison of strings by character code, as JavaScript's \<open><\<close>.\<close>

fun str_less :: "string \<Rightarrow> string \<Rightarrow> bool" where
  "str_less [] [] = False"
| "str_less [] (y # ys) = True"
| "str_less (x # xs) [] = False"
| "str_less (x # xs) (y # ys) =
     ((of_char x :: nat) < of_char y \<or> (x = y \<and> str_less xs ys))"

text \<open>
  The order of two clock readings: the order of their fields, most significant first.
  This is the order of the instants as long as the local UTC offset is the same at both.
\<close>

definition earlier :: "date \<Rightarrow> date \<Rightarrow> bool" where
  "earlier a b =
     (getFullYear a < getFullYear b \<or> (getFullYear a = getFullYear b \<and>
     (getMonth a < getMonth b \<or> (getMonth a = getMonth b \<and>
     (getDate a < getDate b \<or> (getDate a = getDate b \<and>
     (getHours a < getHours b \<or> (getHours a = getHours b \<and>
     (getMinutes a < getMinutes b \<or> (getMinutes a = getMinutes b \<and>
     (getSeconds a < getSeconds b \<or> (getSeconds a = getSeconds b \<and>
      getMilliseconds a < getMilliseconds b))))))))))))"

text \<open>A number printed in exactly \<open>k\<close> digits, the form the padded fields take.\<close>

fun fixed :: "nat \<Rightarrow> nat \<Rightarrow> string" where
  "fixed 0 n = []"
| "fixed (Suc k) n = fixed k (n div 10) @ [digit (n mod 10)]"

section \<open>Paths\<close>

text \<open>
  The tools take absolute paths. A path is modelled by the list of its components below
  the root of a POSIX file system (\<open>/home/u/a.txt\<close> is \<open>[''home'', ''u'', ''a.txt'']\<close>, the
  root is \<open>[]\<close>); there are no symbolic links. On such a path \<open>path.normalize\<close> is the
  identity, \<open>path.dirname\<close> drops the last component and \<open>path.basename\<close> is the last
  component (empty for the root).
\<close>

type_synonym path = "string list"

definition dirname :: "path \<Rightarrow> path" where
  "dirname p = butlast p"

definition basename :: "path \<Rightarrow> string" where
  "basename p = (if p = [] then [] else last p)"

definition endsWith :: "string \<Rightarrow> string \<Rightarrow> bool" where
  "endsWith s suf = suffix suf s"

text \<open>
  \<open>path.parse(p).name\<close>: the base name without its extension. The extension starts at the
  last dot of the base name, unless that dot is its first character or the base name
  is \<open>..\<close>; \<open>name + ext\<close> is always the base name.
\<close>

definition parsedName :: "string \<Rightarrow> string" where
  "parsedName base =
     (let pre = rev (tl (dropWhile (\<lambda>c. c \<noteq> CHR ''.'') (rev base)))
      in if CHR ''.'' \<notin> set base \<or> pre = [] \<or> base = ''..'' then base else pre)"

text \<open>
  \<open>path.join(dir, s)\<close> for a string \<open>s\<close> built by the engine: \<open>s\<close> is split at the
  separators and each segment is applied to \<open>dir\<close> (empty and \<open>.\<close> segments are dropped,
  \<open>..\<close> climbs one level).
\<close>

fun splitSlash :: "string \<Rightarrow> string list" where
  "splitSlash [] = [[]]"
| "splitSlash (c # cs) =
     (if c = CHR ''/'' then [] # splitSlash cs
      else (case splitSlash cs of [] \<Rightarrow> [[c]] | x # xs \<Rightarrow> (c # x) # xs))"

definition pathStep :: "path \<Rightarrow> string \<Rightarrow> path" where
  "pathStep acc c = (if c = [] \<or> c = ''.'' then acc else if c = ''..'' then butlast acc else acc @ [c])"

definition joinPath :: "path \<Rightarrow> string \<Rightarrow> path" where
  "joinPath dir s = foldl pathStep dir (splitSlash s)"

text \<open>Appending text to a path string (\<open>`${p}.meta.json`\<close>) extends its last component.\<close>

definition appendToPath :: "path \<Rightarrow> string \<Rightarrow> path" where
  "appendToPath p s = butlast p @ [basename p @ s]"

text \<open>
  The path that the string \<open>`${path.join(dir, s)}${t}`\<close> names: \<open>path.join\<close> keeps a
  trailing separator of \<open>s\<close>, and the appended text is then an entry below the joined path.
\<close>

definition joinAppend :: "path \<Rightarrow> string \<Rightarrow> string \<Rightarrow> path" where
  "joinAppend dir s t =
     (if s \<noteq> [] \<and> last s = CHR ''/'' then joinPath dir s @ [t]
      else appendToPath (joinPath dir s) t)"

text \<open>A well-formed component: not empty, not \<open>.\<close> or \<open>..\<close>, without a separator.\<close>

definition validName :: "string \<Rightarrow> bool" where
  "validName c = (c \<noteq> [] \<and> c \<noteq> ''.'' \<and> c \<noteq> ''..'' \<and> CHR ''/'' \<notin> set c)"

definition toLowerCase :: "string \<Rightarrow> string" where
  "toLowerCase s = map (\<lambda>c. if 65 \<le> (of_char c :: nat) \<and> (of_char c :: nat) \<le> 90
                          then char_of ((of_char c :: nat) + 32) else c) s"

section \<open>Data model\<close>

text \<open>
  The descriptor of a backup entry (\<open>BackupMetadata\<close>). A field read from a descriptor
  on disk may be missing, hence the options; \<open>created_at\<close> and \<open>relative_path\<close>, which
  the engine writes and never reads, are left out.
\<close>

record BackupMetadata =
  original_path :: "path option"
  original_filename :: "string option"
  timestamp :: "string option"
  backup_path :: "path option"
  agent_context :: "string option"

text \<open>
  The content of a file, as \<open>JSON.parse\<close> tells contents apart. \<open>Json m\<close> is the JSON text
  of a descriptor object with the properties \<open>m\<close> (what \<open>JSON.parse\<close> reads back from what
  \<open>JSON.stringify\<close> wrote). \<open>JsonValue s\<close> is the JSON text \<open>s\<close> of any other truthy value (a
  number that is not 0, a string that is not empty, \<open>true\<close>, an array), on which every
  property that the engine reads is undefined. \<open>Bytes s\<close> is any other text: \<open>JSON.parse\<close>
  throws on it or returns \<open>null\<close>, \<open>false\<close>, \<open>0\<close> or the empty string. Copying a file copies
  its content unchanged.
\<close>

datatype content = Bytes string | Json BackupMetadata | JsonValue string

text \<open>
  A directory holds its entries in the order in which they were added; \<open>readdirSync\<close>
  returns the names sorted (see \<open>sortedEntries\<close> below).
\<close>

datatype node = File content | Dir "(string \<times> node) list"

record Operation =
  op_id :: string
  op_type :: string
  progress :: nat
  cancelled :: bool
  status :: string

record world =
  fs :: node
  operations :: "string \<rightharpoonup> Operation"

text \<open>The configuration read from the environment at start-up.\<close>

record config =
  BACKUP_DIR :: path
  EMERGENCY_BACKUP_DIR :: path
  MAX_VERSIONS :: int

datatype error =
    InvalidParams string
  | FileNotFound path
  | FolderNotFound path
  | BackupNotFound string path
  | BackupFileNotFound "path option"
  | BackupFolderNotFound "path option"
  | OriginalFileNotFound path
  | UnknownTool string
  | TypeError
  | SystemError string path

text \<open>
  What the engine calls in the JavaScript runtime and its libraries beyond the file
  system: \<open>new Date(s).getTime()\<close> (\<open>None\<close> is NaN), \<open>a.localeCompare(b)\<close>,
  \<open>minimatch(name, pattern)\<close>, and \<open>Array.prototype.sort\<close> with a comparison function that
  may throw (which pairs the sort compares, and so whether it throws, is the runtime's
  choice). They are parameters of the model.
\<close>

record runtime =
  getTime :: "string \<Rightarrow> int option"
  localeCompare :: "string \<Rightarrow> string \<Rightarrow> int"
  minimatch :: "string \<Rightarrow> string \<Rightarrow> bool"
  arraySort :: "(BackupMetadata \<Rightarrow> BackupMetadata \<Rightarrow> error + int) \<Rightarrow> BackupMetadata list
                  \<Rightarrow> error + BackupMetadata list"

datatype result_data =
    CreateResult BackupMetadata int
  | ListResult "BackupMetadata list"
  | RestoreResult path string
  | FolderRestoreResult path string "path option"
  | CancelFailure string
  | CancelSuccess string

datatype response =
    JsonResponse result_data
  | ErrorResponse error "string option"
  | OperationCancelled

text \<open>
  A tool call with its arguments as the handlers read them: a missing or empty string
  argument is \<open>None\<close> (or the empty string for \<open>timestamp\<close> and \<open>operationId\<close>), a missing
  \<open>create_emergency_backup\<close> of \<open>backup_restore\<close> is \<open>False\<close> (the handler casts the
  arguments without applying the schema's default). The catalog scan \<open>backup_list_all\<close>
  is not modelled.
\<close>

datatype tool_call =
    Backup_create "path option" "string option"
  | Backup_list "path option"
  | Backup_restore "path option" string bool
  | Backup_folder_create "path option" "string option" "string option" "string option"
  | Backup_folder_list "path option"
  | Backup_folder_restore "path option" string "bool option"
  | Mcp_cancel string
  | Unknown_tool string

section \<open>File system\<close>

primrec lookup :: "path \<Rightarrow> node \<Rightarrow> node option" where
  "lookup [] n = Some n"
| "lookup (x # xs) n =
     (case n of File c \<Rightarrow> None
      | Dir es \<Rightarrow> (case map_of es x of None \<Rightarrow> None | Some m \<Rightarrow> lookup xs m))"

definition existsSync :: "node \<Rightarrow> path \<Rightarrow> bool" where
  "existsSync root p = (lookup p root \<noteq> None)"

definition isFile :: "node \<Rightarrow> path \<Rightarrow> bool" where
  "isFile root p = (case lookup p root of Some (File c) \<Rightarrow> True | _ \<Rightarrow> False)"

definition isDirectory :: "node \<Rightarrow> path \<Rightarrow> bool" where
  "isDirectory root p = (case lookup p root of Some (Dir es) \<Rightarrow> True | _ \<Rightarrow> False)"

text \<open>
  \<open>fs.readdirSync\<close>: Node reads a directory with libuv's \<open>scandir\<close>, which returns the
  names sorted by \<open>strcmp\<close>, that is, by character code. \<open>sortedEntries es\<close> is the listing
  of a directory with the entries \<open>es\<close> in which the directories below are listed in the
  same way; both walks of the engine (the search for descriptors and the folder copy)
  read every directory they enter with \<open>readdirSync\<close>.
\<close>

fun insertEntry :: "string \<times> node \<Rightarrow> (string \<times> node) list \<Rightarrow> (string \<times> node) list" where
  "insertEntry e [] = [e]"
| "insertEntry e (f # rest) =
     (if str_less (fst f) (fst e) then f # insertEntry e rest else e # f # rest)"

fun sortedEntries :: "(string \<times> node) list \<Rightarrow> (string \<times> node) list" where
  "sortedEntries [] = []"
| "sortedEntries ((name, File c) # es) = insertEntry (name, File c) (sortedEntries es)"
| "sortedEntries ((name, Dir sub) # es) =
     insertEntry (name, Dir (sortedEntries sub)) (sortedEntries es)"

text \<open>
  Writing a file: the parent must be an existing directory and the target must not be a
  directory. A new entry is listed after the existing ones.
\<close>

primrec writeNode :: "path \<Rightarrow> content \<Rightarrow> node \<Rightarrow> node option" where
  "writeNode [] c n = None"
| "writeNode (x # xs) c n =
     (case n of File c' \<Rightarrow> None
      | Dir es \<Rightarrow>
         (if xs = [] then
            (case map_of es x of Some (Dir es') \<Rightarrow> None
             | _ \<Rightarrow> Some (Dir (AList.update x (File c) es)))
          else
            (case map_of es x of None \<Rightarrow> None
             | Some m \<Rightarrow> (case writeNode xs c m of None \<Rightarrow> None
                          | Some m' \<Rightarrow> Some (Dir (AList.update x m' es))))))"

text \<open>\<open>fs.unlinkSync\<close> removes a file; it fails on a missing path and on a directory.\<close>

primrec unlinkNode :: "path \<Rightarrow> node \<Rightarrow> node option" where
  "unlinkNode [] n = None"
| "unlinkNode (x # xs) n =
     (case n of File c' \<Rightarrow> None
      | Dir es \<Rightarrow>
         (if xs = [] then
            (case map_of es x of Some (File c) \<Rightarrow> Some (Dir (AList.delete x es)) | _ \<Rightarrow> None)
          else
            (case map_of es x of None \<Rightarrow> None
             | Some m \<Rightarrow> (case unlinkNode xs m of None \<Rightarrow> None
                          | Some m' \<Rightarrow> Some (Dir (AList.update x m' es))))))"

text \<open>\<open>fs.rmdirSync(p, {recursive: true})\<close> removes a directory with all it holds.\<close>

primrec rmdirNode :: "path \<Rightarrow> node \<Rightarrow> node option" where
  "rmdirNode [] n = None"
| "rmdirNode (x # xs) n =
     (case n of File c' \<Rightarrow> None
      | Dir es \<Rightarrow>
         (if xs = [] then
            (case map_of es x of Some (Dir es') \<Rightarrow> Some (Dir (AList.delete x es)) | _ \<Rightarrow> None)
          else
            (case map_of es x of None \<Rightarrow> None
             | Some m \<Rightarrow> (case rmdirNode xs m of None \<Rightarrow> None
                          | Some m' \<Rightarrow> Some (Dir (AList.update x m' es))))))"

text \<open>
  \<open>mkdir(p, {recursive: true})\<close> creates the missing directories along \<open>p\<close>; it fails
  when a file stands in the way.
\<close>

primrec mkdirp :: "path \<Rightarrow> node \<Rightarrow> node option" where
  "mkdirp [] n = (case n of Dir es \<Rightarrow> Some n | File c \<Rightarrow> None)"
| "mkdirp (x # xs) n =
     (case n of File c \<Rightarrow> None
      | Dir es \<Rightarrow>
         (case mkdirp xs (case map_of es x of None \<Rightarrow> Dir [] | Some m \<Rightarrow> m) of
            None \<Rightarrow> None
          | Some m' \<Rightarrow> Some (Dir (AList.update x m' es))))"

definition mkdirRecursive :: "path \<Rightarrow> node \<Rightarrow> error + node" where
  "mkdirRecursive p root =
     (case mkdirp p root of None \<Rightarrow> Inl (SystemError ''mkdir'' p) | Some root' \<Rightarrow> Inr root')"

definition writeFile :: "path \<Rightarrow> content \<Rightarrow> node \<Rightarrow> error + node" where
  "writeFile p c root =
     (case writeNode p c root of None \<Rightarrow> Inl (SystemError ''open'' p) | Some root' \<Rightarrow> Inr root')"

definition copyFile :: "path \<Rightarrow> path \<Rightarrow> node \<Rightarrow> error + node" where
  "copyFile src dst root =
     (case lookup src root of
        Some (File c) \<Rightarrow>
          (case writeNode dst c root of None \<Rightarrow> Inl (SystemError ''copyfile'' dst)
           | Some root' \<Rightarrow> Inr root')
      | _ \<Rightarrow> Inl (SystemError ''copyfile'' src))"

definition unlinkSync :: "path \<Rightarrow> node \<Rightarrow> error + node" where
  "unlinkSync p root =
     (case unlinkNode p root of None \<Rightarrow> Inl (SystemError ''unlink'' p) | Some root' \<Rightarrow> Inr root')"

section \<open>Operation tracker\<close>

definition createOperation :: "string \<Rightarrow> string \<Rightarrow> world \<Rightarrow> world" where
  "createOperation uuid type w =
     w\<lparr>operations := (operations w)(uuid \<mapsto>
        \<lparr>op_id = uuid, op_type = type, progress = 0, cancelled = False, status = ''running''\<rparr>)\<rparr>"

definition cancelOperation :: "string \<Rightarrow> world \<Rightarrow> bool \<times> world" where
  "cancelOperation operationId w =
     (case operations w operationId of
        Some operation \<Rightarrow>
          (True, w\<lparr>operations := (operations w)(operationId \<mapsto> operation\<lparr>cancelled := True\<rparr>)\<rparr>)
      | None \<Rightarrow> (False, w))"

definition updateOperationProgress :: "string \<Rightarrow> nat \<Rightarrow> world \<Rightarrow> world" where
  "updateOperationProgress operationId p w =
     (case operations w operationId of
        Some operation \<Rightarrow> w\<lparr>operations := (operations w)(operationId \<mapsto> operation\<lparr>progress := p\<rparr>)\<rparr>
      | None \<Rightarrow> w)"

text \<open>
  \<open>logProgress\<close> reads the module-level \<open>currentOperationId\<close>. The request handler
  declares a local variable of the same name and assigns only that one, so the
  module-level variable keeps its initial value null and \<open>logProgress\<close> changes nothing.
  The handlers below therefore leave their \<open>logProgress\<close> calls out.
\<close>

definition moduleCurrentOperationId :: "string option" where
  "moduleCurrentOperationId = None"

definition logProgress :: "nat \<Rightarrow> world \<Rightarrow> world" where
  "logProgress p w =
     (case moduleCurrentOperationId of None \<Rightarrow> w | Some i \<Rightarrow> updateOperationProgress i p w)"

text \<open>The test of \<open>checkOperationCancelled\<close>; the callers run the cleanup and return.\<close>

definition isCancelled :: "string \<Rightarrow> world \<Rightarrow> bool" where
  "isCancelled operationId w =
     (operationId \<noteq> [] \<and> (case operations w operationId of Some operation \<Rightarrow> cancelled operation | None \<Rightarrow> False))"

section \<open>Path mapper and metadata store\<close>

definition getBackupDir :: "config \<Rightarrow> path \<Rightarrow> path" where
  "getBackupDir cfg filePath = BACKUP_DIR cfg @ dirname filePath"

definition getBackupFilename :: "path \<Rightarrow> string \<Rightarrow> string" where
  "getBackupFilename filePath ts = basename filePath @ ''.'' @ ts"

definition getBackupFolderName :: "path \<Rightarrow> string \<Rightarrow> string" where
  "getBackupFolderName folderPath ts = basename folderPath @ ''.'' @ ts"

definition getBackupMetadataFilename :: "path \<Rightarrow> path" where
  "getBackupMetadataFilename backupFilePath = appendToPath backupFilePath ''.meta.json''"

definition createBackupMetadata :: "path \<Rightarrow> string \<Rightarrow> path \<Rightarrow> string option \<Rightarrow> BackupMetadata" where
  "createBackupMetadata filePath ts backupPath agentContext =
     \<lparr>original_path = Some filePath, original_filename = Some (basename filePath),
      timestamp = Some ts, backup_path = Some backupPath, agent_context = agentContext\<rparr>"

definition saveBackupMetadata :: "path \<Rightarrow> BackupMetadata \<Rightarrow> node \<Rightarrow> error + node" where
  "saveBackupMetadata metadataPath metadata root = writeFile metadataPath (Json metadata) root"

text \<open>
  \<open>readBackupMetadata\<close> returns what \<open>JSON.parse\<close> returns, or null when the file cannot be
  read or parsed. Every caller tests the result for truthiness first, so \<open>None\<close> stands for
  null and for the falsy values; a truthy value that is not a descriptor object has none
  of the properties (\<open>noProperties\<close>).
\<close>

definition noProperties :: BackupMetadata where
  "noProperties = \<lparr>original_path = None, original_filename = None, timestamp = None,
                    backup_path = None, agent_context = None\<rparr>"

definition readBackupMetadata :: "node \<Rightarrow> path \<Rightarrow> BackupMetadata option" where
  "readBackupMetadata root metadataPath =
     (case lookup metadataPath root of
        Some (File (Json m)) \<Rightarrow> Some m
      | Some (File (JsonValue s)) \<Rightarrow> Some noProperties
      | _ \<Rightarrow> None)"

definition isFolderMetadata :: "node \<Rightarrow> BackupMetadata \<Rightarrow> bool" where
  "isFolderMetadata root metadata =
     (original_path metadata \<noteq> None \<and>
      (case backup_path metadata of None \<Rightarrow> False
       | Some bp \<Rightarrow> \<not> endsWith (basename bp) ''.meta.json'' \<and> existsSync root bp \<and> isDirectory root bp))"

definition isParentPath :: "path \<Rightarrow> path \<Rightarrow> bool" where
  "isParentPath parentPath childPath =
     (if parentPath = [] then childPath = []
      else prefix (map toLowerCase parentPath) (map toLowerCase childPath))"

text \<open>
  The recursive search for descriptor files: \<open>items d es\<close> walks the listing \<open>es\<close> of the
  directory \<open>d\<close> in order, descending into each subdirectory where it stands.
\<close>

fun items :: "path \<Rightarrow> (string \<times> node) list \<Rightarrow> path list" where
  "items d [] = []"
| "items d ((item, File c) # es) =
     (if endsWith item ''.meta.json'' then [d @ [item]] else []) @ items d es"
| "items d ((item, Dir sub) # es) = items (d @ [item]) sub @ items d es"

definition findAllBackupMetadataFiles :: "node \<Rightarrow> path \<Rightarrow> error + path list" where
  "findAllBackupMetadataFiles root directory =
     (case lookup directory root of
        None \<Rightarrow> Inr []
      | Some (Dir es) \<Rightarrow> Inr (items directory (sortedEntries es))
      | Some (File c) \<Rightarrow> Inl (SystemError ''scandir'' directory))"

text \<open>
  \<open>Array.prototype.sort\<close> with a comparison function: a stable sort, in which a
  comparison that yields NaN counts as 0.
\<close>

definition positive :: "int option \<Rightarrow> bool" where
  "positive r = (case r of Some v \<Rightarrow> 0 < v | None \<Rightarrow> False)"

fun insertBy :: "('a \<Rightarrow> 'a \<Rightarrow> int option) \<Rightarrow> 'a \<Rightarrow> 'a list \<Rightarrow> 'a list" where
  "insertBy cmp x [] = [x]"
| "insertBy cmp x (y # ys) = (if positive (cmp x y) then y # insertBy cmp x ys else x # y # ys)"

definition sortBy :: "('a \<Rightarrow> 'a \<Rightarrow> int option) \<Rightarrow> 'a list \<Rightarrow> 'a list" where
  "sortBy cmp xs = foldr (insertBy cmp) xs []"

definition timeOf :: "runtime \<Rightarrow> BackupMetadata \<Rightarrow> int option" where
  "timeOf rt b = (case timestamp b of None \<Rightarrow> None | Some s \<Rightarrow> getTime rt s)"

definition subtract :: "int option \<Rightarrow> int option \<Rightarrow> int option" where
  "subtract x y = (case x of None \<Rightarrow> None | Some a \<Rightarrow> (case y of None \<Rightarrow> None | Some b \<Rightarrow> Some (a - b)))"

definition newestFirst :: "runtime \<Rightarrow> BackupMetadata \<Rightarrow> BackupMetadata \<Rightarrow> int option" where
  "newestFirst rt a b = subtract (timeOf rt b) (timeOf rt a)"

definition oldestFirst :: "runtime \<Rightarrow> BackupMetadata \<Rightarrow> BackupMetadata \<Rightarrow> int option" where
  "oldestFirst rt a b = subtract (timeOf rt a) (timeOf rt b)"

definition metadataOf :: "node \<Rightarrow> path list \<Rightarrow> BackupMetadata list" where
  "metadataOf root files = concat (map (\<lambda>q. case readBackupMetadata root q of None \<Rightarrow> [] | Some m \<Rightarrow> [m]) files)"

definition findBackupsByFilePath :: "runtime \<Rightarrow> config \<Rightarrow> node \<Rightarrow> path \<Rightarrow> error + BackupMetadata list" where
  "findBackupsByFilePath rt cfg root filePath =
     (case findAllBackupMetadataFiles root (BACKUP_DIR cfg) of
        Inl e \<Rightarrow> Inl e
      | Inr metadataFiles \<Rightarrow>
          Inr (sortBy (newestFirst rt)
                (filter (\<lambda>metadata. original_path metadata = Some filePath \<and> \<not> isFolderMetadata root metadata)
                   (metadataOf root metadataFiles))))"

text \<open>
  Sorting by \<open>b.timestamp.localeCompare(a.timestamp)\<close>: the comparison throws a TypeError
  when \<open>b\<close> has no timestamp; a missing timestamp of \<open>a\<close> is compared as the string
  \<open>undefined\<close>.
\<close>

definition compareLocale :: "runtime \<Rightarrow> BackupMetadata \<Rightarrow> BackupMetadata \<Rightarrow> error + int" where
  "compareLocale rt a b =
     (case timestamp b of
        None \<Rightarrow> Inl TypeError
      | Some tb \<Rightarrow>
          Inr (localeCompare rt tb (case timestamp a of None \<Rightarrow> ''undefined'' | Some ta \<Rightarrow> ta)))"

definition sortByLocale :: "runtime \<Rightarrow> BackupMetadata list \<Rightarrow> error + BackupMetadata list" where
  "sortByLocale rt backups = arraySort rt (compareLocale rt) backups"

definition findBackupsByFolderPath :: "runtime \<Rightarrow> config \<Rightarrow> node \<Rightarrow> path \<Rightarrow> error + BackupMetadata list" where
  "findBackupsByFolderPath rt cfg root folderPath =
     (case findAllBackupMetadataFiles root (BACKUP_DIR cfg) of
        Inl e \<Rightarrow> Inl e
      | Inr metadataFiles \<Rightarrow>
          sortByLocale rt
            (filter (\<lambda>metadata. isFolderMetadata root metadata \<and>
                 (original_path metadata = Some folderPath \<or>
                  isParentPath (the (original_path metadata)) folderPath \<or>
                  isParentPath folderPath (the (original_path metadata))))
               (metadataOf root metadataFiles)))"

definition findBackupByTimestamp :: "config \<Rightarrow> node \<Rightarrow> path \<Rightarrow> string \<Rightarrow> BackupMetadata option" where
  "findBackupByTimestamp cfg root filePath ts =
     (let backupDir = getBackupDir cfg filePath;
          backupFilename = getBackupFilename filePath ts;
          metadataPath = joinAppend backupDir backupFilename ''.meta.json''
      in if existsSync root metadataPath then
           (case readBackupMetadata root metadataPath of
              Some metadata \<Rightarrow> if \<not> isFolderMetadata root metadata then Some metadata else None
            | None \<Rightarrow> None)
         else None)"

section \<open>Retention manager\<close>

text \<open>
  The loop over \<open>backupsToRemove\<close>: a failed \<open>unlinkSync\<close> is logged and skipped (also
  the TypeError of a descriptor without \<open>backup_path\<close>).
\<close>

fun removeBackups :: "BackupMetadata list \<Rightarrow> node \<Rightarrow> node" where
  "removeBackups [] root = root"
| "removeBackups (backup # rest) root =
     removeBackups rest
       (case backup_path backup of None \<Rightarrow> root
        | Some bp \<Rightarrow> (case unlinkSync bp root of Inl e \<Rightarrow> root | Inr root' \<Rightarrow> root'))"

definition cleanupOldBackups :: "runtime \<Rightarrow> config \<Rightarrow> path \<Rightarrow> node \<Rightarrow> (error + int) \<times> node" where
  "cleanupOldBackups rt cfg filePath root =
     (case findBackupsByFilePath rt cfg root filePath of
        Inl e \<Rightarrow> (Inl e, root)
      | Inr backups \<Rightarrow>
          if int (length backups) > MAX_VERSIONS cfg then
            (let ordered = sortBy (oldestFirst rt) backups;
                 backupsToRemove = take (nat (int (length backups) - MAX_VERSIONS cfg)) ordered
             in (Inr (MAX_VERSIONS cfg), removeBackups backupsToRemove root))
          else (Inr (int (length backups)), root))"

section \<open>Copy engine\<close>

definition active :: "string option \<Rightarrow> bool" where
  "active pattern = (case pattern of None \<Rightarrow> False | Some s \<Rightarrow> s \<noteq> [])"

text \<open>The two tests at the head of the loop of \<open>copyFolderRecursive\<close>: an entry that fails is skipped.\<close>

definition passes :: "runtime \<Rightarrow> string option \<Rightarrow> string option \<Rightarrow> string \<Rightarrow> bool" where
  "passes rt includePattern excludePattern name =
     (\<not> (active excludePattern \<and> minimatch rt name (the excludePattern)) \<and>
      \<not> (active includePattern \<and> \<not> minimatch rt name (the includePattern)))"

text \<open>
  \<open>copyFolderRecursive\<close> walks the listing \<open>es\<close> that \<open>readdirSync\<close> returns for the source
  directory and writes below the target. The source is read as it is when the copy
  starts: the engine copies between a folder and a store outside it.
\<close>

fun copyEntries :: "runtime \<Rightarrow> (string \<times> node) list \<Rightarrow> path \<Rightarrow> string option \<Rightarrow> string option \<Rightarrow> node \<Rightarrow> error + node" where
  "copyEntries rt [] targetPath inc exc root = Inr root"
| "copyEntries rt ((name, File c) # es) targetPath inc exc root =
     (if \<not> passes rt inc exc name then copyEntries rt es targetPath inc exc root
      else (case writeNode (targetPath @ [name]) c root of
              None \<Rightarrow> Inl (SystemError ''copyfile'' (targetPath @ [name]))
            | Some root' \<Rightarrow> copyEntries rt es targetPath inc exc root'))"
| "copyEntries rt ((name, Dir sub) # es) targetPath inc exc root =
     (if \<not> passes rt inc exc name then copyEntries rt es targetPath inc exc root
      else (case (if existsSync root (targetPath @ [name]) then Inr root
                  else mkdirRecursive (targetPath @ [name]) root) of
              Inl e \<Rightarrow> Inl e
            | Inr root1 \<Rightarrow>
                (case copyEntries rt sub (targetPath @ [name]) inc exc root1 of
                   Inl e \<Rightarrow> Inl e
                 | Inr root2 \<Rightarrow> copyEntries rt es targetPath inc exc root2)))"

definition copyFolderRecursive :: "runtime \<Rightarrow> path \<Rightarrow> path \<Rightarrow> string option \<Rightarrow> string option \<Rightarrow> node \<Rightarrow> error + node" where
  "copyFolderRecursive rt sourcePath targetPath inc exc root =
     (case (if existsSync root targetPath then Inr root else mkdirRecursive targetPath root) of
        Inl e \<Rightarrow> Inl e
      | Inr root1 \<Rightarrow>
          (case lookup sourcePath root1 of
             Some (Dir es) \<Rightarrow> copyEntries rt (sortedEntries es) targetPath inc exc root1
           | _ \<Rightarrow> Inl (SystemError ''scandir'' sourcePath)))"

definition copyFolderContents :: "runtime \<Rightarrow> path \<Rightarrow> path \<Rightarrow> string option \<Rightarrow> string option \<Rightarrow> node \<Rightarrow> error + node" where
  "copyFolderContents rt sourcePath targetPath inc exc root =
     (case mkdirRecursive targetPath root of
        Inl e \<Rightarrow> Inl e
      | Inr root1 \<Rightarrow> copyFolderRecursive rt sourcePath targetPath inc exc root1)"

section \<open>Emergency safety net\<close>

definition ensureEmergencyBackupDir :: "config \<Rightarrow> node \<Rightarrow> error + node" where
  "ensureEmergencyBackupDir cfg root =
     (if \<not> existsSync root (EMERGENCY_BACKUP_DIR cfg) then mkdirRecursive (EMERGENCY_BACKUP_DIR cfg) root
      else Inr root)"

text \<open>
  \<open>createEmergencyBackup\<close> catches every error and returns null; what it has written by
  then stays. \<open>now\<close> is the clock reading of its \<open>generateTimestamp()\<close>.
\<close>

definition createEmergencyBackup :: "config \<Rightarrow> date \<Rightarrow> path \<Rightarrow> node \<Rightarrow> path option \<times> node" where
  "createEmergencyBackup cfg now filePath root =
     (if \<not> existsSync root filePath then (None, root)
      else (case ensureEmergencyBackupDir cfg root of
        Inl e \<Rightarrow> (None, root)
      | Inr root1 \<Rightarrow>
         (let ts = generateTimestamp now;
              emergencyBackupDir = EMERGENCY_BACKUP_DIR cfg @ dirname filePath
          in case mkdirRecursive emergencyBackupDir root1 of
               Inl e \<Rightarrow> (None, root1)
             | Inr root2 \<Rightarrow>
                (let backupPath = joinPath emergencyBackupDir (basename filePath @ ''.emergency.'' @ ts)
                 in case copyFile filePath backupPath root2 of
                      Inl e \<Rightarrow> (None, root2)
                    | Inr root3 \<Rightarrow>
                       (let metadata = createBackupMetadata filePath ts backupPath
                                         (Some ''Emergency backup created before restoration'');
                            metadataPath = joinPath (EMERGENCY_BACKUP_DIR cfg)
                               (parsedName (basename filePath) @ ''.emergency.'' @ ts @ ''.meta.json'')
                        in case writeFile metadataPath (Json metadata) root3 of
                             Inl e \<Rightarrow> (None, root3)
                           | Inr root4 \<Rightarrow> (Some backupPath, root4))))))"

definition createEmergencyFolderBackup :: "runtime \<Rightarrow> config \<Rightarrow> date \<Rightarrow> path \<Rightarrow> node \<Rightarrow> path option \<times> node" where
  "createEmergencyFolderBackup rt cfg now folderPath root =
     (if \<not> existsSync root folderPath then (None, root)
      else (case ensureEmergencyBackupDir cfg root of
        Inl e \<Rightarrow> (None, root)
      | Inr root1 \<Rightarrow>
         (let ts = generateTimestamp now;
              emergencyBackupDir = EMERGENCY_BACKUP_DIR cfg @ dirname folderPath
          in case mkdirRecursive emergencyBackupDir root1 of
               Inl e \<Rightarrow> (None, root1)
             | Inr root2 \<Rightarrow>
                (let backupPath = joinPath emergencyBackupDir
                                    (parsedName (basename folderPath) @ ''.emergency.'' @ ts)
                 in case copyFolderContents rt folderPath backupPath None None root2 of
                      Inl e \<Rightarrow> (None, root2)
                    | Inr root3 \<Rightarrow>
                       (let metadata = createBackupMetadata folderPath ts backupPath
                                         (Some ''Emergency backup created before restoration'');
                            metadataPath = joinPath (EMERGENCY_BACKUP_DIR cfg)
                               (parsedName (basename folderPath) @ ''.emergency.'' @ ts @ ''.meta.json'')
                        in case writeFile metadataPath (Json metadata) root3 of
                             Inl e \<Rightarrow> (None, root3)
                           | Inr root4 \<Rightarrow> (Some backupPath, root4))))))"

section \<open>Restore\<close>

definition restoreBackup :: "runtime \<Rightarrow> config \<Rightarrow> date \<Rightarrow> path \<Rightarrow> string \<Rightarrow> bool \<Rightarrow> node \<Rightarrow> (error + unit) \<times> node" where
  "restoreBackup rt cfg now filePath ts createEmergencyBackupFlag root =
     (case findBackupsByFilePath rt cfg root filePath of
        Inl e \<Rightarrow> (Inl e, root)
      | Inr backups \<Rightarrow>
         (case find (\<lambda>b. timestamp b = Some ts) backups of
            None \<Rightarrow> (Inl (BackupNotFound ts filePath), root)
          | Some backup \<Rightarrow>
             (let root1 = (if createEmergencyBackupFlag
                           then snd (createEmergencyBackup cfg now filePath root) else root)
              in case backup_path backup of
                   None \<Rightarrow> (Inl (BackupFileNotFound None), root1)
                 | Some backupPath \<Rightarrow>
                     if \<not> existsSync root1 backupPath then (Inl (BackupFileNotFound (Some backupPath)), root1)
                     else if \<not> existsSync root1 filePath then (Inl (OriginalFileNotFound filePath), root1)
                     else (case copyFile backupPath filePath root1 of
                             Inl e \<Rightarrow> (Inl e, root1)
                           | Inr root2 \<Rightarrow> (Inr (), root2)))))"

section \<open>Tool handlers\<close>

text \<open>
  Each handler takes the identifier of the operation that the dispatcher created for the
  call and the clock readings of the call (\<open>clock k\<close> is the Date that the \<open>k\<close>-th
  \<open>generateTimestamp()\<close> of the call reads). It returns the response, or the error it
  throws, with the state it leaves behind.
\<close>

definition validateFileExists :: "node \<Rightarrow> path \<Rightarrow> error + unit" where
  "validateFileExists root filePath = (if isFile root filePath then Inr () else Inl (FileNotFound filePath))"

definition validateFolderExists :: "node \<Rightarrow> path \<Rightarrow> error + unit" where
  "validateFolderExists root folderPath =
     (if isDirectory root folderPath then Inr () else Inl (FolderNotFound folderPath))"

definition setFs :: "world \<Rightarrow> node \<Rightarrow> world" where
  "setFs w root = w\<lparr>fs := root\<rparr>"

definition backup_create ::
  "runtime \<Rightarrow> config \<Rightarrow> (nat \<Rightarrow> date) \<Rightarrow> string \<Rightarrow> path option \<Rightarrow> string option \<Rightarrow> world \<Rightarrow> (error + response) \<times> world" where
  "backup_create rt cfg clock opId file_path agentContext w =
     (case file_path of
        None \<Rightarrow> (Inl (InvalidParams ''file_path''), w)
      | Some filePath \<Rightarrow>
        (case validateFileExists (fs w) filePath of
           Inl e \<Rightarrow> (Inl e, w)
         | Inr u \<Rightarrow>
           (let ts = generateTimestamp (clock 0);
                backupDir = getBackupDir cfg filePath
            in case mkdirRecursive backupDir (fs w) of
                 Inl e \<Rightarrow> (Inl e, w)
               | Inr root1 \<Rightarrow>
                  (let backupFilename = getBackupFilename filePath ts;
                       backupPath = joinPath backupDir backupFilename
                   in if isCancelled opId w then (Inr OperationCancelled, setFs w root1)
                      else (case copyFile filePath backupPath root1 of
                        Inl e \<Rightarrow> (Inl e, setFs w root1)
                      | Inr root2 \<Rightarrow>
                         if isCancelled opId w then
                           (Inr OperationCancelled,
                            setFs w (if existsSync root2 backupPath
                                     then (case unlinkSync backupPath root2 of Inl e \<Rightarrow> root2 | Inr r \<Rightarrow> r)
                                     else root2))
                         else
                          (let metadata = createBackupMetadata filePath ts backupPath agentContext;
                               metadataPath = getBackupMetadataFilename backupPath
                           in case saveBackupMetadata metadataPath metadata root2 of
                                Inl e \<Rightarrow> (Inl e, setFs w root2)
                              | Inr root3 \<Rightarrow>
                                 (case cleanupOldBackups rt cfg filePath root3 of
                                    (Inl e, root4) \<Rightarrow> (Inl e, setFs w root4)
                                  | (Inr versionsKept, root4) \<Rightarrow>
                                      (Inr (JsonResponse (CreateResult metadata versionsKept)),
                                       setFs w root4))))))))"

definition backup_list ::
  "runtime \<Rightarrow> config \<Rightarrow> path option \<Rightarrow> world \<Rightarrow> (error + response) \<times> world" where
  "backup_list rt cfg file_path w =
     (case file_path of
        None \<Rightarrow> (Inl (InvalidParams ''file_path''), w)
      | Some filePath \<Rightarrow>
        (case validateFileExists (fs w) filePath of
           Inl e \<Rightarrow> (Inl e, w)
         | Inr u \<Rightarrow>
           (case findBackupsByFilePath rt cfg (fs w) filePath of
              Inl e \<Rightarrow> (Inl e, w)
            | Inr backups \<Rightarrow>
               (case sortByLocale rt backups of
                  Inl e \<Rightarrow> (Inl e, w)
                | Inr ordered \<Rightarrow> (Inr (JsonResponse (ListResult ordered)), w)))))"

definition backup_restore ::
  "runtime \<Rightarrow> config \<Rightarrow> (nat \<Rightarrow> date) \<Rightarrow> string \<Rightarrow> path option \<Rightarrow> string \<Rightarrow> bool \<Rightarrow> world \<Rightarrow> (error + response) \<times> world" where
  "backup_restore rt cfg clock opId file_path ts create_emergency_backup w =
     (case file_path of
        None \<Rightarrow> (Inl (InvalidParams ''file_path''), w)
      | Some filePath \<Rightarrow>
        if ts = [] then (Inl (InvalidParams ''timestamp''), w)
        else (case findBackupByTimestamp cfg (fs w) filePath ts of
           None \<Rightarrow> (Inl (BackupNotFound ts filePath), w)
         | Some backup \<Rightarrow>
            if isCancelled opId w then (Inr OperationCancelled, w)
            else (case mkdirRecursive (dirname filePath) (fs w) of
               Inl e \<Rightarrow> (Inl e, w)
             | Inr root1 \<Rightarrow>
                if isCancelled opId w then (Inr OperationCancelled, setFs w root1)
                else
                 (let root2 = (if create_emergency_backup
                               then snd (createEmergencyBackup cfg (clock 0) filePath root1) else root1)
                  in case restoreBackup rt cfg (clock 1) filePath ts create_emergency_backup root2 of
                       (Inl e, root3) \<Rightarrow> (Inl e, setFs w root3)
                     | (Inr u, root3) \<Rightarrow>
                         (Inr (JsonResponse (RestoreResult filePath ts)), setFs w root3)))))"

definition backup_folder_create ::
  "runtime \<Rightarrow> config \<Rightarrow> (nat \<Rightarrow> date) \<Rightarrow> string \<Rightarrow> path option \<Rightarrow> string option \<Rightarrow> string option \<Rightarrow> string option \<Rightarrow> world \<Rightarrow> (error + response) \<times> world" where
  "backup_folder_create rt cfg clock opId folder_path include_pattern exclude_pattern agentContext w =
     (case folder_path of
        None \<Rightarrow> (Inl (InvalidParams ''folder_path''), w)
      | Some folderPath \<Rightarrow>
        (case validateFolderExists (fs w) folderPath of
           Inl e \<Rightarrow> (Inl e, w)
         | Inr u \<Rightarrow>
           (let ts = generateTimestamp (clock 0);
                backupDir = getBackupDir cfg folderPath
            in case mkdirRecursive backupDir (fs w) of
                 Inl e \<Rightarrow> (Inl e, w)
               | Inr root1 \<Rightarrow>
                  (let backupFolderName = getBackupFolderName folderPath ts;
                       backupFolderPath = joinPath backupDir backupFolderName
                   in if isCancelled opId w then (Inr OperationCancelled, setFs w root1)
                      else (case copyFolderContents rt folderPath backupFolderPath
                                   include_pattern exclude_pattern root1 of
                        Inl e \<Rightarrow> (Inl e, setFs w root1)
                      | Inr root2 \<Rightarrow>
                         if isCancelled opId w then
                           (Inr OperationCancelled,
                            setFs w (if existsSync root2 backupFolderPath
                                     then (case rmdirNode backupFolderPath root2 of None \<Rightarrow> root2 | Some r \<Rightarrow> r)
                                     else root2))
                         else
                          (let metadata = createBackupMetadata folderPath ts backupFolderPath agentContext;
                               metadataPath = appendToPath backupFolderPath ''.meta.json''
                           in case saveBackupMetadata metadataPath metadata root2 of
                                Inl e \<Rightarrow> (Inl e, setFs w root2)
                              | Inr root3 \<Rightarrow>
                                 (case cleanupOldBackups rt cfg folderPath root3 of
                                    (Inl e, root4) \<Rightarrow> (Inl e, setFs w root4)
                                  | (Inr versionsKept, root4) \<Rightarrow>
                                      (Inr (JsonResponse (CreateResult metadata versionsKept)),
                                       setFs w root4))))))))"

definition backup_folder_list ::
  "runtime \<Rightarrow> config \<Rightarrow> path option \<Rightarrow> world \<Rightarrow> (error + response) \<times> world" where
  "backup_folder_list rt cfg folder_path w =
     (case folder_path of
        None \<Rightarrow> (Inl (InvalidParams ''folder_path''), w)
      | Some folderPath \<Rightarrow>
        (case validateFolderExists (fs w) folderPath of
           Inl e \<Rightarrow> (Inl e, w)
         | Inr u \<Rightarrow>
           (case findBackupsByFolderPath rt cfg (fs w) folderPath of
              Inl e \<Rightarrow> (Inl e, w)
            | Inr backups \<Rightarrow>
               (case sortByLocale rt backups of
                  Inl e \<Rightarrow> (Inl e, w)
                | Inr ordered \<Rightarrow> (Inr (JsonResponse (ListResult ordered)), w)))))"

text \<open>
  The body of the \<open>try\<close> block of \<open>backup_folder_restore\<close>; the \<open>catch\<close> around it marks the
  operation as failed and throws the error again.
\<close>

definition folder_restore_body ::
  "runtime \<Rightarrow> config \<Rightarrow> (nat \<Rightarrow> date) \<Rightarrow> string \<Rightarrow> path \<Rightarrow> string \<Rightarrow> bool \<Rightarrow> world \<Rightarrow> (error + response) \<times> world" where
  "folder_restore_body rt cfg clock opId folderPath ts create_emergency_backup w =
     (case findBackupsByFolderPath rt cfg (fs w) folderPath of
        Inl e \<Rightarrow> (Inl e, w)
      | Inr backups \<Rightarrow>
         (case find (\<lambda>b. timestamp b = Some ts) backups of
            None \<Rightarrow> (Inl (BackupNotFound ts folderPath), w)
          | Some backup \<Rightarrow>
             (let r = (if create_emergency_backup
                       then createEmergencyFolderBackup rt cfg (clock 0) folderPath (fs w)
                       else (None, fs w));
                  emergencyBackupPath = fst r;
                  root1 = snd r
              in case backup_path backup of
                   None \<Rightarrow> (Inl (BackupFolderNotFound None), setFs w root1)
                 | Some backupPath \<Rightarrow>
                     if \<not> existsSync root1 backupPath
                     then (Inl (BackupFolderNotFound (Some backupPath)), setFs w root1)
                     else if isCancelled opId w then (Inr OperationCancelled, setFs w root1)
                     else (case copyFolderContents rt backupPath folderPath None None root1 of
                             Inl e \<Rightarrow> (Inl e, setFs w root1)
                           | Inr root2 \<Rightarrow>
                               (Inr (JsonResponse (FolderRestoreResult folderPath ts emergencyBackupPath)),
                                setFs w root2)))))"

definition markError :: "string \<Rightarrow> world \<Rightarrow> world" where
  "markError opId w =
     (case operations w opId of
        Some operation \<Rightarrow> w\<lparr>operations := (operations w)(opId \<mapsto> operation\<lparr>status := ''error''\<rparr>)\<rparr>
      | None \<Rightarrow> w)"

definition backup_folder_restore ::
  "runtime \<Rightarrow> config \<Rightarrow> (nat \<Rightarrow> date) \<Rightarrow> string \<Rightarrow> path option \<Rightarrow> string \<Rightarrow> bool option \<Rightarrow> world \<Rightarrow> (error + response) \<times> world" where
  "backup_folder_restore rt cfg clock opId folder_path ts create_emergency_backup w =
     (case folder_path of
        None \<Rightarrow> (Inl (InvalidParams ''folder_path''), w)
      | Some folderPath \<Rightarrow>
        if ts = [] then (Inl (InvalidParams ''timestamp''), w)
        else (case validateFolderExists (fs w) folderPath of
           Inl e \<Rightarrow> (Inl e, w)
         | Inr u \<Rightarrow>
            (case folder_restore_body rt cfg clock opId folderPath ts
                    (case create_emergency_backup of None \<Rightarrow> True | Some b \<Rightarrow> b) w of
               (Inl e, w') \<Rightarrow> (Inl e, markError opId w')
             | (Inr r, w') \<Rightarrow> (Inr r, w'))))"

definition mcp_cancel :: "string \<Rightarrow> world \<Rightarrow> (error + response) \<times> world" where
  "mcp_cancel operationId w =
     (if operationId = [] then (Inl (InvalidParams ''operationId''), w)
      else (case cancelOperation operationId w of
              (False, w') \<Rightarrow> (Inr (JsonResponse (CancelFailure operationId)), w')
            | (True, w') \<Rightarrow> (Inr (JsonResponse (CancelSuccess operationId)), w')))"

definition toolName :: "tool_call \<Rightarrow> string" where
  "toolName call =
     (case call of
        Backup_create p c \<Rightarrow> ''backup_create''
      | Backup_list p \<Rightarrow> ''backup_list''
      | Backup_restore p t e \<Rightarrow> ''backup_restore''
      | Backup_folder_create p i x c \<Rightarrow> ''backup_folder_create''
      | Backup_folder_list p \<Rightarrow> ''backup_folder_list''
      | Backup_folder_restore p t e \<Rightarrow> ''backup_folder_restore''
      | Mcp_cancel i \<Rightarrow> ''mcp_cancel''
      | Unknown_tool name \<Rightarrow> name)"

text \<open>
  The request handler: it registers a new operation under a fresh identifier (\<open>uuid\<close>,
  the value of \<open>crypto.randomUUID()\<close>), runs the tool, and turns a thrown error into an
  error response that carries the identifier. No code removes an operation from the map.
\<close>

definition callTool :: "runtime \<Rightarrow> config \<Rightarrow> (nat \<Rightarrow> date) \<Rightarrow> string \<Rightarrow> tool_call \<Rightarrow> world \<Rightarrow> response \<times> world" where
  "callTool rt cfg clock uuid call w =
     (let w1 = createOperation uuid (toolName call) w;
          r = (case call of
                 Backup_create p c \<Rightarrow> backup_create rt cfg clock uuid p c w1
               | Backup_list p \<Rightarrow> backup_list rt cfg p w1
               | Backup_restore p t e \<Rightarrow> backup_restore rt cfg clock uuid p t e w1
               | Backup_folder_create p i x c \<Rightarrow> backup_folder_create rt cfg clock uuid p i x c w1
               | Backup_folder_list p \<Rightarrow> backup_folder_list rt cfg p w1
               | Backup_folder_restore p t e \<Rightarrow> backup_folder_restore rt cfg clock uuid p t e w1
               | Mcp_cancel i \<Rightarrow> mcp_cancel i w1
               | Unknown_tool name \<Rightarrow> (Inl (UnknownTool name), w1))
      in case r of
           (Inl e, w2) \<Rightarrow> (ErrorResponse e (Some uuid), w2)
         | (Inr resp, w2) \<Rightarrow> (resp, w2))"

section \<open>Well-formed trees and the filtered copy\<close>

text \<open>
  In a directory listing every name occurs once: \<open>wfEntries\<close>. The functions
  \<open>pruneEntries\<close> and \<open>replaceAt\<close> are not part of the engine; they describe the tree that a
  copy leaves at its target (the entries that pass the filter, level by level) and are
  used to prove what \<open>copyEntries\<close> does.
\<close>

fun wfEntries :: "(string \<times> node) list \<Rightarrow> bool" where
  "wfEntries [] = True"
| "wfEntries ((name, File c) # es) = (name \<notin> fst ` set es \<and> wfEntries es)"
| "wfEntries ((name, Dir sub) # es) = (name \<notin> fst ` set es \<and> wfEntries sub \<and> wfEntries es)"

fun pruneEntries :: "runtime \<Rightarrow> string option \<Rightarrow> string option \<Rightarrow> (string \<times> node) list \<Rightarrow> (string \<times> node) list" where
  "pruneEntries rt inc exc [] = []"
| "pruneEntries rt inc exc ((name, File c) # es) =
     (if passes rt inc exc name then [(name, File c)] else []) @ pruneEntries rt inc exc es"
| "pruneEntries rt inc exc ((name, Dir sub) # es) =
     (if passes rt inc exc name then [(name, Dir (pruneEntries rt inc exc sub))] else [])
       @ pruneEntries rt inc exc es"

definition pruneNode :: "runtime \<Rightarrow> string option \<Rightarrow> string option \<Rightarrow> node \<Rightarrow> node" where
  "pruneNode rt inc exc n = (case n of File c \<Rightarrow> File c | Dir sub \<Rightarrow> Dir (pruneEntries rt inc exc sub))"

text \<open>\<open>sortedNode\<close> is a node as the walks read it: with every listing sorted.\<close>

definition sortedNode :: "node \<Rightarrow> node" where
  "sortedNode n = (case n of File c \<Rightarrow> File c | Dir sub \<Rightarrow> Dir (sortedEntries sub))"

primrec replaceAt :: "path \<Rightarrow> node \<Rightarrow> node \<Rightarrow> node" where
  "replaceAt [] v n = v"
| "replaceAt (x # xs) v n =
     (case n of File c \<Rightarrow> n
      | Dir es \<Rightarrow> (case map_of es x of None \<Rightarrow> n
                   | Some m \<Rightarrow> Dir (AList.update x (replaceAt xs v m) es)))"

section \<open>Consistent stores\<close>

text \<open>
  The store is consistent for the original path \<open>P\<close> when every descriptor in it that names
  \<open>P\<close> as its original carries a timestamp and names as its payload the place where the
  path mapper puts the backup of \<open>P\<close> with that timestamp. A store without descriptors is
  consistent, and \<open>backup_create\<close> and \<open>backup_restore\<close> of \<open>P\<close> keep the store consistent.
\<close>

definition storeConsistent :: "config \<Rightarrow> path \<Rightarrow> node \<Rightarrow> bool" where
  "storeConsistent cfg P root =
     (\<forall>q m. prefix (BACKUP_DIR cfg) q \<and> endsWith (basename q) ''.meta.json'' \<and>
            readBackupMetadata root q = Some m \<and> original_path m = Some P \<longrightarrow>
        (\<exists>ts. timestamp m = Some ts \<and>
              backup_path m = Some (getBackupDir cfg P @ [getBackupFilename P ts])))"

section \<open>Example inputs\<close>

text \<open>
  Concrete inputs for the closed theorems below. The runtime \<open>rt0\<close> is the one of Node as
  far as those inputs go: \<open>new Date(s)\<close> is an invalid Date for every string in the
  engine's own \<open>YYYYMMDD-HHMMSS-mmm\<close> format (it is not an ISO date-time string, and Node's
  fallback parser rejects a month or day out of range), so \<open>getTime()\<close> is NaN; \<open>minimatch\<close>
  is given for patterns of literal characters, \<open>*\<close> and \<open>?\<close>, where a leading dot of a name has
  to be matched by a dot; \<open>localeCompare\<close> compares the digit strings by character code;
  \<open>sortWith\<close> is a stable insertion sort that compares each element with the ones before it.
\<close>

definition d9999 :: date where
  "d9999 = \<lparr>getFullYear = 9999, getMonth = 11, getDate = 31, getHours = 23, getMinutes = 59,
            getSeconds = 59, getMilliseconds = 999\<rparr>"

definition d10000 :: date where
  "d10000 = \<lparr>getFullYear = 10000, getMonth = 0, getDate = 1, getHours = 0, getMinutes = 0,
            getSeconds = 0, getMilliseconds = 0\<rparr>"

fun glob :: "string \<Rightarrow> string \<Rightarrow> bool" where
  "glob [] [] = True"
| "glob [] (c # cs) = False"
| "glob (p # ps) [] = (p = CHR ''*'' \<and> glob ps [])"
| "glob (p # ps) (c # cs) =
     (if p = CHR ''*'' then glob ps (c # cs) \<or> glob (p # ps) cs
      else (p = CHR ''?'' \<or> p = c) \<and> glob ps cs)"

definition simpleMinimatch :: "string \<Rightarrow> string \<Rightarrow> bool" where
  "simpleMinimatch name pattern =
     (if name \<noteq> [] \<and> hd name = CHR ''.'' \<and> (pattern = [] \<or> hd pattern \<noteq> CHR ''.'') then False
      else glob pattern name)"

definition codeCompare :: "string \<Rightarrow> string \<Rightarrow> int" where
  "codeCompare a b = (if str_less a b then - 1 else if str_less b a then 1 else 0)"

fun insertLater :: "('a \<Rightarrow> 'a \<Rightarrow> error + int) \<Rightarrow> 'a \<Rightarrow> 'a list \<Rightarrow> error + 'a list" where
  "insertLater cmp x [] = Inr [x]"
| "insertLater cmp x (y # ys) =
     (case cmp x y of
        Inl e \<Rightarrow> Inl e
      | Inr v \<Rightarrow>
          if v < 0 then Inr (x # y # ys)
          else (case insertLater cmp x ys of Inl e \<Rightarrow> Inl e | Inr r \<Rightarrow> Inr (y # r)))"

definition sortWith :: "('a \<Rightarrow> 'a \<Rightarrow> error + int) \<Rightarrow> 'a list \<Rightarrow> error + 'a list" where
  "sortWith cmp xs =
     foldl (\<lambda>acc x. case acc of Inl e \<Rightarrow> Inl e | Inr ordered \<Rightarrow> insertLater cmp x ordered) (Inr []) xs"

definition rt0 :: runtime where
  "rt0 = \<lparr>getTime = (\<lambda>s. None), localeCompare = codeCompare, minimatch = simpleMinimatch,
          arraySort = sortWith\<rparr>"

definition cfg0 :: config where
  "cfg0 = \<lparr>BACKUP_DIR = [''bk''], EMERGENCY_BACKUP_DIR = [''em''], MAX_VERSIONS = 2\<rparr>"

definition fileA :: path where
  "fileA = [''home'', ''u'', ''a.txt'']"

definition meta :: "string \<Rightarrow> BackupMetadata" where
  "meta ts = createBackupMetadata fileA ts [''bk'', ''home'', ''u'', ''a.txt.'' @ ts] None"

definition T1 :: string where "T1 = ''20240101-100000-000''"

definition T2 :: string where "T2 = ''20240102-100000-000''"

definition T3 :: string where "T3 = ''20240103-100000-000''"

text \<open>A store with three versions of \<open>fileA\<close>.\<close>

definition store3 :: node where
  "store3 = Dir [
     (''bk'', Dir [(''home'', Dir [(''u'', Dir [
        (''a.txt.'' @ T1, File (Bytes ''v1'')), (''a.txt.'' @ T1 @ ''.meta.json'', File (Json (meta T1))),
        (''a.txt.'' @ T2, File (Bytes ''v2'')), (''a.txt.'' @ T2 @ ''.meta.json'', File (Json (meta T2))),
        (''a.txt.'' @ T3, File (Bytes ''v3'')), (''a.txt.'' @ T3 @ ''.meta.json'', File (Json (meta T3)))])])]),
     (''home'', Dir [(''u'', Dir [(''a.txt'', File (Bytes ''v3''))])])]"

definition clock0 :: "nat \<Rightarrow> date" where
  "clock0 k = \<lparr>getFullYear = 2024, getMonth = 0, getDate = 4, getHours = 10, getMinutes = 0,
            getSeconds = 0, getMilliseconds = k\<rparr>"

definition w0 :: world where
  "w0 = \<lparr>fs = store3, operations = Map.empty\<rparr>"

definition wEmpty :: world where
  "wEmpty = \<lparr>fs = Dir [], operations = Map.empty\<rparr>"

text \<open>The store \<open>store3\<close> after the original file has been deleted.\<close>

definition storeGone :: node where
  "storeGone = Dir [
     (''bk'', Dir [(''home'', Dir [(''u'', Dir [
        (''a.txt.'' @ T1, File (Bytes ''v1'')), (''a.txt.'' @ T1 @ ''.meta.json'', File (Json (meta T1)))])])]),
     (''home'', Dir [(''u'', Dir [])])]"

definition wGone :: world where
  "wGone = \<lparr>fs = storeGone, operations = Map.empty\<rparr>"

text \<open>A store with two versions of \<open>fileA\<close>; \<open>store1\<close> holds one version.\<close>

definition store2 :: node where
  "store2 = Dir [
     (''bk'', Dir [(''home'', Dir [(''u'', Dir [
        (''a.txt.'' @ T1, File (Bytes ''v1'')), (''a.txt.'' @ T1 @ ''.meta.json'', File (Json (meta T1))),
        (''a.txt.'' @ T2, File (Bytes ''v2'')), (''a.txt.'' @ T2 @ ''.meta.json'', File (Json (meta T2)))])])]),
     (''home'', Dir [(''u'', Dir [(''a.txt'', File (Bytes ''v3''))])])]"

definition w2 :: world where
  "w2 = \<lparr>fs = store2, operations = Map.empty\<rparr>"

definition store1 :: node where
  "store1 = Dir [
     (''bk'', Dir [(''home'', Dir [(''u'', Dir [
        (''a.txt.'' @ T1, File (Bytes ''v1'')), (''a.txt.'' @ T1 @ ''.meta.json'', File (Json (meta T1)))])])]),
     (''home'', Dir [(''u'', Dir [(''a.txt'', File (Bytes ''v3''))])])]"

definition w1 :: world where
  "w1 = \<lparr>fs = store1, operations = Map.empty\<rparr>"

definition T4 :: string where "T4 = ''20240104-100000-000''"

definition T5 :: string where "T5 = ''20240104-100000-001''"

definition backupOf :: "string \<Rightarrow> path" where
  "backupOf ts = [''bk'', ''home'', ''u'', ''a.txt.'' @ ts]"

definition emergencyOf :: "string \<Rightarrow> path" where
  "emergencyOf ts = [''em'', ''home'', ''u'', ''a.txt.emergency.'' @ ts]"

text \<open>A project folder with temporary files and a temporary directory, and its copy without \<open>*.tmp\<close>.\<close>

definition treeC :: node where
  "treeC = Dir [
     (''bk'', Dir []),
     (''proj'', Dir [
        (''a.txt'', File (Bytes ''a'')),
        (''b.tmp'', File (Bytes ''b'')),
        (''cache.tmp'', Dir [(''keep.txt'', File (Bytes ''k''))]),
        (''sub'', Dir [(''c.txt'', File (Bytes ''c'')), (''d.tmp'', File (Bytes ''d''))])])]"

definition treeC' :: node where
  "treeC' = Dir [
     (''bk'', Dir [(''proj.copy'', Dir [
        (''a.txt'', File (Bytes ''a'')),
        (''sub'', Dir [(''c.txt'', File (Bytes ''c''))])])]),
     (''proj'', Dir [
        (''a.txt'', File (Bytes ''a'')),
        (''b.tmp'', File (Bytes ''b'')),
        (''cache.tmp'', Dir [(''keep.txt'', File (Bytes ''k''))]),
        (''sub'', Dir [(''c.txt'', File (Bytes ''c'')), (''d.tmp'', File (Bytes ''d''))])])]"

text \<open>A folder with two versions in the store.\<close>

definition folderD :: path where
  "folderD = [''home'', ''u'', ''d'']"

definition folderBackupOf :: "string \<Rightarrow> path" where
  "folderBackupOf ts = [''bk'', ''home'', ''u'', ''d.'' @ ts]"

definition metaD :: "string \<Rightarrow> BackupMetadata" where
  "metaD ts = createBackupMetadata folderD ts (folderBackupOf ts) None"

definition storeD :: node where
  "storeD = Dir [
     (''bk'', Dir [(''home'', Dir [(''u'', Dir [
        (''d.'' @ T1, Dir [(''f.txt'', File (Bytes ''v1''))]),
        (''d.'' @ T1 @ ''.meta.json'', File (Json (metaD T1))),
        (''d.'' @ T2, Dir [(''f.txt'', File (Bytes ''v2''))]),
        (''d.'' @ T2 @ ''.meta.json'', File (Json (metaD T2)))])])]),
     (''home'', Dir [(''u'', Dir [(''d'', Dir [(''f.txt'', File (Bytes ''v3''))])])])]"

definition wD :: world where
  "wD = \<lparr>fs = storeD, operations = Map.empty\<rparr>"

text \<open>
  The store \<open>store1\<close> with a second file \<open>fileB\<close> beside \<open>fileA\<close>, which has no backup, and a
  timestamp argument that leads from the backup name of \<open>fileB\<close> to that of \<open>fileA\<close>.
\<close>

definition fileB :: path where
  "fileB = [''home'', ''u'', ''b.txt'']"

definition storeB :: node where
  "storeB = Dir [
     (''bk'', Dir [(''home'', Dir [(''u'', Dir [
        (''a.txt.'' @ T1, File (Bytes ''v1'')), (''a.txt.'' @ T1 @ ''.meta.json'', File (Json (meta T1)))])])]),
     (''home'', Dir [(''u'', Dir [(''a.txt'', File (Bytes ''v3'')), (''b.txt'', File (Bytes ''w''))])])]"

definition wB :: world where
  "wB = \<lparr>fs = storeB, operations = Map.empty\<rparr>"

definition TB :: string where
  "TB = ''/../a.txt.'' @ T1"

text \<open>
  The store \<open>store1\<close> after a backup of \<open>fileA\<close> has been created at \<open>clock0\<close>, and after
  \<open>fileA\<close> has then been overwritten.
\<close>

definition storeCreated :: node where
  "storeCreated = Dir [
     (''bk'', Dir [(''home'', Dir [(''u'', Dir [
        (''a.txt.'' @ T1, File (Bytes ''v1'')), (''a.txt.'' @ T1 @ ''.meta.json'', File (Json (meta T1))),
        (''a.txt.'' @ T4, File (Bytes ''v3'')), (''a.txt.'' @ T4 @ ''.meta.json'', File (Json (meta T4)))])])]),
     (''home'', Dir [(''u'', Dir [(''a.txt'', File (Bytes ''v3''))])])]"


definition storeEdited :: node where
  "storeEdited = Dir [
     (''bk'', Dir [(''home'', Dir [(''u'', Dir [
        (''a.txt.'' @ T1, File (Bytes ''v1'')), (''a.txt.'' @ T1 @ ''.meta.json'', File (Json (meta T1))),
        (''a.txt.'' @ T4, File (Bytes ''v3'')), (''a.txt.'' @ T4 @ ''.meta.json'', File (Json (meta T4)))])])]),
     (''home'', Dir [(''u'', Dir [(''a.txt'', File (Bytes ''v4''))])])]"


definition wCreated :: world where
  "wCreated = \<lparr>fs = storeCreated,
     operations = [''op-1'' \<mapsto> \<lparr>op_id = ''op-1'', op_type = ''backup_create'', progress = 0,
        cancelled = False, status = ''running''\<rparr>]\<rparr>"


definition wEdited :: world where
  "wEdited = \<lparr>fs = storeEdited, operations = operations wCreated\<rparr>"

definition d2024 :: date where
  "d2024 = \<lparr>getFullYear = 2024, getMonth = 0, getDate = 9, getHours = 8, getMinutes = 7,
            getSeconds = 6, getMilliseconds = 5\<rparr>"

section \<open>Timestamps: fixed width and order\<close>

lemma digit0: "digit 0 = CHR ''0''"
  by (simp add: digit_def)

lemma length_fixed [simp]: "length (fixed k n) = k"
  by (induction k arbitrary: n) auto

lemma fixed_zero: "fixed k 0 = replicate k (CHR ''0'')"
  by (induction k) (auto simp: digit0 replicate_append_same)

lemma padStart_length:
  "padStart k c s = t \<Longrightarrow> length t = k \<Longrightarrow> 0 < k \<Longrightarrow> s \<noteq> [] \<Longrightarrow> length s \<le> k"
  by (cases "length s \<le> k") (auto simp: padStart_def)

lemma natToString_nonempty: "natToString n \<noteq> []"
  by (simp add: natToString.simps [of n])

lemma padStart_fixed:
  "n < 10 ^ k \<Longrightarrow> 0 < k \<Longrightarrow> padStart k (CHR ''0'') (natToString n) = fixed k n"
proof (induction n arbitrary: k rule: natToString.induct)
  case (1 n)
  from "1.prems" obtain j where k: "k = Suc j" by (cases k) auto
  show ?case
  proof (cases "n < 10")
    case True
    then show ?thesis
      by (simp add: natToString.simps [of n] padStart_def k fixed_zero)
  next
    case False
    from False "1.prems" k have lt: "n div 10 < 10 ^ j" by auto
    from False lt have j: "0 < j" by (cases j) auto
    have ih: "padStart j (CHR ''0'') (natToString (n div 10)) = fixed j (n div 10)"
      using "1.IH" [OF False lt j] .
    have len: "length (natToString (n div 10)) \<le> j"
      using padStart_length [OF ih _ j natToString_nonempty] by simp
    have "padStart (Suc j) (CHR ''0'') (natToString (n div 10) @ [digit (n mod 10)])
        = padStart j (CHR ''0'') (natToString (n div 10)) @ [digit (n mod 10)]"
      using len by (simp add: padStart_def)
    then show ?thesis using False ih
      by (simp add: natToString.simps [of n] k)
  qed
qed

lemma of_char_digit: "n < 10 \<Longrightarrow> (of_char (digit n) :: nat) = 48 + n"
proof -
  assume "n < 10"
  then have "n \<in> set [0, 1, 2, 3, 4, 5, 6, 7, 8, 9]"
    by (simp only: set_simps insert_iff empty_iff) arith
  then show ?thesis
    by (auto simp: digit_def)
qed

lemma digit_inj: "n < 10 \<Longrightarrow> m < 10 \<Longrightarrow> digit n = digit m \<longleftrightarrow> n = m"
  using of_char_digit [of n] of_char_digit [of m] by (metis add_left_cancel)

lemma str_less_append:
  "length a = length a' \<Longrightarrow>
   str_less (a @ b) (a' @ b') \<longleftrightarrow> str_less a a' \<or> (a = a' \<and> str_less b b')"
proof (induction a a' rule: list_induct2)
  case Nil
  then show ?case by simp
next
  case (Cons x xs y ys)
  then show ?case by auto
qed

lemma str_less_irrefl [simp]: "\<not> str_less a a"
  by (induction a) auto

lemma div_mod_lex:
  fixes n m :: nat
  shows "n < m \<longleftrightarrow> n div 10 < m div 10 \<or> (n div 10 = m div 10 \<and> n mod 10 < m mod 10)"
proof -
  define a b c d where "a = n div 10" and "b = n mod 10" and "c = m div 10" and "d = m mod 10"
  have n: "n = 10 * a + b" and m: "m = 10 * c + d" and b: "b < 10" and d: "d < 10"
    by (simp_all add: a_def b_def c_def d_def)
  have "10 * a + b < 10 * c + d \<longleftrightarrow> a < c \<or> (a = c \<and> b < d)"
    using b d by arith
  then show ?thesis
    unfolding a_def [symmetric] b_def [symmetric] c_def [symmetric] d_def [symmetric]
    using n m by simp
qed

lemma div_mod_eq:
  fixes n m :: nat
  shows "n = m \<longleftrightarrow> n div 10 = m div 10 \<and> n mod 10 = m mod 10"
  by (metis div_mult_mod_eq)

lemma fixed_eq: "n < 10 ^ k \<Longrightarrow> m < 10 ^ k \<Longrightarrow> fixed k n = fixed k m \<longleftrightarrow> n = m"
proof (induction k arbitrary: n m)
  case 0
  then show ?case by simp
next
  case (Suc k)
  then have a: "n div 10 < 10 ^ k" "m div 10 < 10 ^ k" by auto
  have b: "n mod 10 < 10" "m mod 10 < 10" by auto
  show ?case
    using Suc.IH [OF a] digit_inj [OF b] div_mod_eq [of n m] by simp
qed

lemma fixed_less:
  "n < 10 ^ k \<Longrightarrow> m < 10 ^ k \<Longrightarrow> str_less (fixed k n) (fixed k m) \<longleftrightarrow> n < m"
proof (induction k arbitrary: n m)
  case 0
  then show ?case by simp
next
  case (Suc k)
  then have a: "n div 10 < 10 ^ k" "m div 10 < 10 ^ k" by auto
  have b: "n mod 10 < 10" "m mod 10 < 10" by auto
  show ?case
    using Suc.IH [OF a] fixed_eq [OF a] div_mod_lex [of n m]
    by (simp add: str_less_append of_char_digit [OF b(1)] of_char_digit [OF b(2)])
qed

lemma natToString4: "1000 \<le> n \<Longrightarrow> n < 10000 \<Longrightarrow> natToString n = fixed 4 n"
proof -
  assume n: "1000 \<le> n" "n < 10000"
  have p: "padStart 4 (CHR ''0'') (natToString n) = fixed 4 n"
    using padStart_fixed [of n 4] n by simp
  have "\<not> n < 10" "\<not> n div 10 < 10" "\<not> n div 10 div 10 < 10" using n by auto
  then have "4 \<le> length (natToString n)"
    by (simp add: natToString.simps [of n] natToString.simps [of "n div 10"]
        natToString.simps [of "n div 10 div 10"] natToString.simps [of "n div 10 div 10 div 10"])
  then show ?thesis using p by (simp add: padStart_def)
qed

lemma generateTimestamp_fixed:
  assumes "validDate d" "1000 \<le> getFullYear d" "getFullYear d \<le> 9999"
  shows "generateTimestamp d =
     fixed 4 (nat (getFullYear d)) @ fixed 2 (getMonth d + 1) @ fixed 2 (getDate d) @ ''-'' @
     fixed 2 (getHours d) @ fixed 2 (getMinutes d) @ fixed 2 (getSeconds d) @ ''-'' @
     fixed 3 (getMilliseconds d)"
proof -
  have y: "intToString (getFullYear d) = fixed 4 (nat (getFullYear d))"
    using assms by (simp add: intToString_def natToString4)
  have "padStart 2 (CHR ''0'') (natToString (getMonth d + 1)) = fixed 2 (getMonth d + 1)"
    "padStart 2 (CHR ''0'') (natToString (getDate d)) = fixed 2 (getDate d)"
    "padStart 2 (CHR ''0'') (natToString (getHours d)) = fixed 2 (getHours d)"
    "padStart 2 (CHR ''0'') (natToString (getMinutes d)) = fixed 2 (getMinutes d)"
    "padStart 2 (CHR ''0'') (natToString (getSeconds d)) = fixed 2 (getSeconds d)"
    "padStart 3 (CHR ''0'') (natToString (getMilliseconds d)) = fixed 3 (getMilliseconds d)"
    using assms(1) by (simp_all add: validDate_def padStart_fixed)
  with y show ?thesis by (simp add: generateTimestamp_def Let_def del: fixed.simps)
qed

lemma replicate2: "replicate 2 c = [c, c]"
  by (simp add: numeral_2_eq_2)

lemmas timestamp_eval =
  generateTimestamp_def intToString_def padStart_def natToString.simps digit_def replicate2

lemma ts10000: "generateTimestamp d10000 = ''100000101-000000-000''"
  by (simp add: timestamp_eval d10000_def)

lemma ts9999: "generateTimestamp d9999 = ''99991231-235959-999''"
  by (simp add: timestamp_eval d9999_def)

text \<open>
  Claim C5, as stated: for any two timestamps generated at different instants, the
  lexicographic order of the strings is the chronological order. The year is printed
  without padding, so the claim fails between the years 9999 and 10000: the later
  reading has the smaller string.
\<close>

theorem timestamp_order_counterexample:
  "validDate d9999 \<and> validDate d10000 \<and> earlier d9999 d10000 \<and>
   \<not> str_less (generateTimestamp d9999) (generateTimestamp d10000) \<and>
   str_less (generateTimestamp d10000) (generateTimestamp d9999)"
  by (simp add: ts10000 ts9999) (simp add: validDate_def earlier_def d9999_def d10000_def)

text \<open>
  Claim C5, amended: for two clock readings with four-digit years (1000 to 9999), the
  lexicographic order of the generated timestamps is the order of the readings, field
  by field from the year down to the millisecond, with every zero-padded boundary
  value of month, day, hour, minute, second and millisecond included.
\<close>

theorem timestamp_order:
  assumes "validDate a" "validDate b"
    and "1000 \<le> getFullYear a" "getFullYear a \<le> 9999"
    and "1000 \<le> getFullYear b" "getFullYear b \<le> 9999"
  shows "str_less (generateTimestamp a) (generateTimestamp b) \<longleftrightarrow> earlier a b"
proof -
  have ya: "nat (getFullYear a) < 10 ^ 4" and yb: "nat (getFullYear b) < 10 ^ 4"
    using assms by simp_all
  have y: "nat (getFullYear a) < nat (getFullYear b) \<longleftrightarrow> getFullYear a < getFullYear b"
    "nat (getFullYear a) = nat (getFullYear b) \<longleftrightarrow> getFullYear a = getFullYear b"
    using assms by auto
  have r: "getMonth a + 1 < 10 ^ 2" "getMonth b + 1 < 10 ^ 2"
    "getDate a < 10 ^ 2" "getDate b < 10 ^ 2" "getHours a < 10 ^ 2" "getHours b < 10 ^ 2"
    "getMinutes a < 10 ^ 2" "getMinutes b < 10 ^ 2" "getSeconds a < 10 ^ 2" "getSeconds b < 10 ^ 2"
    "getMilliseconds a < 10 ^ 3" "getMilliseconds b < 10 ^ 3"
    using assms(1,2) by (simp_all add: validDate_def)
  show ?thesis
    unfolding generateTimestamp_fixed [OF assms(1,3,4)] generateTimestamp_fixed [OF assms(2,5,6)]
    by (simp only: str_less_append length_fixed fixed_less [OF ya yb] fixed_eq [OF ya yb]
        fixed_less [OF r(1,2)] fixed_eq [OF r(1,2)] fixed_less [OF r(3,4)] fixed_eq [OF r(3,4)]
        fixed_less [OF r(5,6)] fixed_eq [OF r(5,6)] fixed_less [OF r(7,8)] fixed_eq [OF r(7,8)]
        fixed_less [OF r(9,10)] fixed_eq [OF r(9,10)] fixed_less [OF r(11,12)]
        y earlier_def str_less_irrefl simp_thms add_less_cancel_right add_right_cancel)
qed

theorem timestamp_order_witness:
  "str_less (generateTimestamp d2024) (generateTimestamp d9999) \<and> earlier d2024 d9999"
proof -
  have v: "validDate d2024" "validDate d9999"
    by (simp_all add: validDate_def d2024_def d9999_def)
  have y: "1000 \<le> getFullYear d2024" "getFullYear d2024 \<le> 9999"
    "1000 \<le> getFullYear d9999" "getFullYear d9999 \<le> 9999"
    by (simp_all add: d2024_def d9999_def)
  have e: "earlier d2024 d9999" by (simp add: earlier_def d2024_def d9999_def)
  with timestamp_order [OF v y] show ?thesis by simp
qed

section \<open>Operation tracker and early failures\<close>

lemma logProgress_noop: "logProgress p w = w"
  by (simp add: logProgress_def moduleCurrentOperationId_def)

lemma fs_createOperation [simp]: "fs (createOperation uuid type w) = fs w"
  by (simp add: createOperation_def)

lemmas fs_eval =
  existsSync_def isFile_def isDirectory_def readBackupMetadata_def basename_def dirname_def
  endsWith_def suffix_to_prefix appendToPath_def joinPath_def joinAppend_def pathStep_def

text \<open>
  Claim C7: a cancel call for an operation whose dispatch call has already finished is a
  no-op and reports "not found" (success false). The code never removes an operation
  from the map, so the claim fails: here a \<open>backup_list\<close> call fails and returns its
  operation id \<open>op-1\<close> in the error response; the cancel call that follows finds the
  finished operation, marks it cancelled and reports success.
\<close>

theorem cancel_finished_operation:
  "fst (callTool rt0 cfg0 clock0 ''op-1'' (Backup_list (Some fileA)) wEmpty)
     = ErrorResponse (FileNotFound fileA) (Some ''op-1'') \<and>
   fst (callTool rt0 cfg0 clock0 ''op-2'' (Mcp_cancel ''op-1'')
         (snd (callTool rt0 cfg0 clock0 ''op-1'' (Backup_list (Some fileA)) wEmpty)))
     = JsonResponse (CancelSuccess ''op-1'') \<and>
   map_option cancelled (operations (snd (callTool rt0 cfg0 clock0 ''op-2'' (Mcp_cancel ''op-1'')
         (snd (callTool rt0 cfg0 clock0 ''op-1'' (Backup_list (Some fileA)) wEmpty)))) ''op-1'')
     = Some True"
  by (simp add: callTool_def toolName_def backup_list_def validateFileExists_def isFile_def
      wEmpty_def fileA_def mcp_cancel_def cancelOperation_def createOperation_def)



text \<open>
  Claim C10: when the path \<open>P\<close> is not an existing file, \<open>backup_list\<close> fails with "File not
  found" and, when it is not an existing directory, \<open>backup_folder_list\<close> fails with
  "Folder not found"; both fail before the store is read, whatever it holds, so the
  versions of a deleted or moved original cannot be listed.
\<close>

theorem list_requires_existing_original:
  "(\<not> isFile (fs w) P \<longrightarrow>
      callTool rt cfg clock uuid (Backup_list (Some P)) w =
        (ErrorResponse (FileNotFound P) (Some uuid), createOperation uuid ''backup_list'' w)) \<and>
   (\<not> isDirectory (fs w) P \<longrightarrow>
      callTool rt cfg clock uuid (Backup_folder_list (Some P)) w =
        (ErrorResponse (FolderNotFound P) (Some uuid), createOperation uuid ''backup_folder_list'' w))"
  by (simp add: callTool_def toolName_def backup_list_def backup_folder_list_def
      validateFileExists_def validateFolderExists_def)

theorem list_requires_existing_original_witness:
  "\<not> isFile (fs wGone) fileA \<and> \<not> isDirectory (fs wGone) fileA \<and>
   findBackupsByFilePath rt0 cfg0 (fs wGone) fileA = Inr [meta T1] \<and>
   fst (callTool rt0 cfg0 clock0 ''op-1'' (Backup_list (Some fileA)) wGone)
     = ErrorResponse (FileNotFound fileA) (Some ''op-1'') \<and>
   fst (callTool rt0 cfg0 clock0 ''op-1'' (Backup_folder_list (Some fileA)) wGone)
     = ErrorResponse (FolderNotFound fileA) (Some ''op-1'')"
proof -
  have a: "\<not> isFile (fs wGone) fileA" "\<not> isDirectory (fs wGone) fileA"
    by (simp_all add: wGone_def storeGone_def fileA_def fs_eval)
  have b: "findBackupsByFilePath rt0 cfg0 (fs wGone) fileA = Inr [meta T1]"
    by (simp add: findBackupsByFilePath_def findAllBackupMetadataFiles_def metadataOf_def
        isFolderMetadata_def sortBy_def wGone_def storeGone_def cfg0_def fileA_def meta_def
        createBackupMetadata_def T1_def fs_eval)
  from list_requires_existing_original [of wGone fileA rt0 cfg0 clock0 "''op-1''"] a b
  show ?thesis by simp
qed

section \<open>Evaluating the handlers\<close>

lemma clock0_0: "generateTimestamp (clock0 0) = T4"
  by (simp add: timestamp_eval clock0_def T4_def)

lemma clock0_1: "generateTimestamp (clock0 (Suc 0)) = T5"
  by (simp add: timestamp_eval clock0_def T5_def)

lemmas engine_eval =
  callTool_def toolName_def backup_create_def backup_restore_def validateFileExists_def
  createOperation_def isCancelled_def setFs_def mkdirRecursive_def writeFile_def copyFile_def
  unlinkSync_def getBackupDir_def getBackupFilename_def getBackupMetadataFilename_def
  createBackupMetadata_def saveBackupMetadata_def isFolderMetadata_def
  findAllBackupMetadataFiles_def sortBy_def positive_def timeOf_def subtract_def
  newestFirst_def oldestFirst_def metadataOf_def findBackupsByFilePath_def
  findBackupByTimestamp_def cleanupOldBackups_def ensureEmergencyBackupDir_def
  createEmergencyBackup_def restoreBackup_def parsedName_def fs_eval
  rt0_def cfg0_def fileA_def meta_def T1_def T2_def T3_def T4_def T5_def backupOf_def emergencyOf_def

text \<open>
  A third version of a file with the cap at 2: the search lists the versions in the order
  of the directory, oldest first, both sorts leave that order (their comparison function
  subtracts \<open>new Date(timestamp).getTime()\<close> values, which are NaN), and the pass unlinks the
  payload of the oldest version. Its descriptor stays.
\<close>

lemma create_at_w2:
  "callTool rt0 cfg0 clock0 ''op-1'' (Backup_create (Some fileA) None) w2 =
     (JsonResponse (CreateResult (meta T4) 2),
      \<lparr>fs = Dir [
         (''bk'', Dir [(''home'', Dir [(''u'', Dir [
            (''a.txt.'' @ T1 @ ''.meta.json'', File (Json (meta T1))),
            (''a.txt.'' @ T2, File (Bytes ''v2'')), (''a.txt.'' @ T2 @ ''.meta.json'', File (Json (meta T2))),
            (''a.txt.'' @ T4, File (Bytes ''v3'')), (''a.txt.'' @ T4 @ ''.meta.json'', File (Json (meta T4)))])])]),
         (''home'', Dir [(''u'', Dir [(''a.txt'', File (Bytes ''v3''))])])],
       operations = [''op-1'' \<mapsto> \<lparr>op_id = ''op-1'', op_type = ''backup_create'', progress = 0,
          cancelled = False, status = ''running''\<rparr>]\<rparr>)"
  by (simp add: clock0_0 Let_def engine_eval w2_def store2_def)

lemmas folder_eval =
  backup_folder_create_def validateFolderExists_def getBackupFolderName_def
  copyFolderContents_def copyFolderRecursive_def passes_def active_def
  findBackupsByFolderPath_def sortByLocale_def compareLocale_def sortWith_def codeCompare_def
  isParentPath_def folderD_def metaD_def folderBackupOf_def

lemma folder_create_at_wD:
  "callTool rt0 cfg0 clock0 ''op-1'' (Backup_folder_create (Some folderD) None None None) wD =
     (JsonResponse (CreateResult (metaD T4) 0),
      \<lparr>fs = Dir [
         (''bk'', Dir [(''home'', Dir [(''u'', Dir [
            (''d.'' @ T1, Dir [(''f.txt'', File (Bytes ''v1''))]),
            (''d.'' @ T1 @ ''.meta.json'', File (Json (metaD T1))),
            (''d.'' @ T2, Dir [(''f.txt'', File (Bytes ''v2''))]),
            (''d.'' @ T2 @ ''.meta.json'', File (Json (metaD T2))),
            (''d.'' @ T4, Dir [(''f.txt'', File (Bytes ''v3''))]),
            (''d.'' @ T4 @ ''.meta.json'', File (Json (metaD T4)))])])]),
         (''home'', Dir [(''u'', Dir [(''d'', Dir [(''f.txt'', File (Bytes ''v3''))])])])],
       operations = [''op-1'' \<mapsto> \<lparr>op_id = ''op-1'', op_type = ''backup_folder_create'', progress = 0,
          cancelled = False, status = ''running''\<rparr>]\<rparr>)"
  by (simp add: clock0_0 Let_def engine_eval folder_eval wD_def storeD_def)

text \<open>
  Claim C3: for every original path, the retention pass after a successful create deletes
  the oldest versions beyond the cap \<open>M\<close>, so that the \<open>M\<close> most recent remain, and returns
  the minimum of the count \<open>N\<close> and \<open>M\<close>. The handler of \<open>backup_folder_create\<close> runs the pass
  \<open>cleanupOldBackups\<close> on the folder path, and the pass counts the versions with
  \<open>findBackupsByFilePath\<close>, which leaves out every descriptor of a folder backup. So for a
  folder the pass finds no version, removes nothing and returns 0: here the cap is 2, the
  folder has two versions and the third is created; the call reports 0 versions kept and
  all three versions stay in the store and in the listing.
\<close>

theorem retention_skips_folder_backups:
  "MAX_VERSIONS cfg0 = 2 \<and>
   findBackupsByFolderPath rt0 cfg0 (fs wD) folderD = Inr [metaD T2, metaD T1] \<and>
   fst (callTool rt0 cfg0 clock0 ''op-1'' (Backup_folder_create (Some folderD) None None None) wD)
     = JsonResponse (CreateResult (metaD T4) 0) \<and>
   findBackupsByFolderPath rt0 cfg0
     (fs (snd (callTool rt0 cfg0 clock0 ''op-1'' (Backup_folder_create (Some folderD) None None None) wD)))
     folderD = Inr [metaD T4, metaD T2, metaD T1] \<and>
   isDirectory
     (fs (snd (callTool rt0 cfg0 clock0 ''op-1'' (Backup_folder_create (Some folderD) None None None) wD)))
     (folderBackupOf T1) \<and>
   isDirectory
     (fs (snd (callTool rt0 cfg0 clock0 ''op-1'' (Backup_folder_create (Some folderD) None None None) wD)))
     (folderBackupOf T2) \<and>
   isDirectory
     (fs (snd (callTool rt0 cfg0 clock0 ''op-1'' (Backup_folder_create (Some folderD) None None None) wD)))
     (folderBackupOf T4)"
  unfolding folder_create_at_wD
  by (simp add: Let_def engine_eval folder_eval wD_def storeD_def)


lemma restore_at_w1:
  "callTool rt0 cfg0 clock0 ''op-1'' (Backup_restore (Some fileA) T1 True) w1 =
     (JsonResponse (RestoreResult fileA T1),
      \<lparr>fs = Dir [
         (''bk'', Dir [(''home'', Dir [(''u'', Dir [
            (''a.txt.'' @ T1, File (Bytes ''v1'')), (''a.txt.'' @ T1 @ ''.meta.json'', File (Json (meta T1)))])])]),
         (''home'', Dir [(''u'', Dir [(''a.txt'', File (Bytes ''v1''))])]),
         (''em'', Dir [
            (''home'', Dir [(''u'', Dir [
               (''a.txt.emergency.'' @ T4, File (Bytes ''v3'')),
               (''a.txt.emergency.'' @ T5, File (Bytes ''v3''))])]),
            (''a.emergency.'' @ T4 @ ''.meta.json'',
               File (Json (createBackupMetadata fileA T4 (emergencyOf T4)
                  (Some ''Emergency backup created before restoration'')))),
            (''a.emergency.'' @ T5 @ ''.meta.json'',
               File (Json (createBackupMetadata fileA T5 (emergencyOf T5)
                  (Some ''Emergency backup created before restoration''))))])],
       operations = [''op-1'' \<mapsto> \<lparr>op_id = ''op-1'', op_type = ''backup_restore'', progress = 0,
          cancelled = False, status = ''running''\<rparr>]\<rparr>)"
  by (simp add: clock0_0 clock0_1 Let_def engine_eval w1_def store1_def)

text \<open>
  Claim C2: a restore with \<open>create_emergency_backup\<close> of a file that differs from the
  backup creates exactly one new entry in the emergency store, holding the content
  before the restore, and the file then equals the backup. The handler takes the
  snapshot and then passes the flag to \<open>restoreBackup\<close>, which takes it again: when the
  clock has advanced in between, the emergency store holds two new entries. Both hold
  the content before the restore, and the file equals the backup afterwards.
\<close>

theorem restore_takes_two_emergency_snapshots:
  "lookup fileA (fs w1) = Some (File (Bytes ''v3'')) \<and>
   lookup (backupOf T1) (fs w1) = Some (File (Bytes ''v1'')) \<and>
   \<not> existsSync (fs w1) [''em''] \<and>
   fst (callTool rt0 cfg0 clock0 ''op-1'' (Backup_restore (Some fileA) T1 True) w1)
     = JsonResponse (RestoreResult fileA T1) \<and>
   lookup fileA (fs (snd (callTool rt0 cfg0 clock0 ''op-1'' (Backup_restore (Some fileA) T1 True) w1)))
     = Some (File (Bytes ''v1'')) \<and>
   lookup [''em'', ''home'', ''u'']
       (fs (snd (callTool rt0 cfg0 clock0 ''op-1'' (Backup_restore (Some fileA) T1 True) w1)))
     = Some (Dir [(''a.txt.emergency.'' @ T4, File (Bytes ''v3'')),
                  (''a.txt.emergency.'' @ T5, File (Bytes ''v3''))])"
  unfolding restore_at_w1
  by (simp add: engine_eval w1_def store1_def)

text \<open>
  Claim C6: after every backup-creating operation, emergency variants included, the entry
  at \<open>backup_path\<close> has its descriptor at \<open><backup_path>.meta.json\<close>. The emergency backup
  of a file writes its descriptor into the root of the emergency store, under the base
  name without extension, while the payload goes below the mirrored directory: no
  descriptor stands at \<open><backup_path>.meta.json\<close>.
\<close>

theorem emergency_descriptor_misplaced:
  "lookup (emergencyOf T4)
       (fs (snd (callTool rt0 cfg0 clock0 ''op-1'' (Backup_restore (Some fileA) T1 True) w1)))
     = Some (File (Bytes ''v3'')) \<and>
   \<not> existsSync (fs (snd (callTool rt0 cfg0 clock0 ''op-1'' (Backup_restore (Some fileA) T1 True) w1)))
       (getBackupMetadataFilename (emergencyOf T4)) \<and>
   readBackupMetadata (fs (snd (callTool rt0 cfg0 clock0 ''op-1'' (Backup_restore (Some fileA) T1 True) w1)))
       [''em'', ''a.emergency.'' @ T4 @ ''.meta.json'']
     = Some (createBackupMetadata fileA T4 (emergencyOf T4)
               (Some ''Emergency backup created before restoration''))"
  unfolding restore_at_w1
  by (simp add: engine_eval)

lemma lookup_Dir_Nil [simp]: "p \<noteq> [] \<Longrightarrow> lookup p (Dir []) = None"
  by (cases p) simp_all

lemma mkdirp_keeps_absent:
  "mkdirp d root = Some root1 \<Longrightarrow> lookup (d @ [x]) root = None \<Longrightarrow> lookup (d @ [x]) root1 = None"
proof (induction d arbitrary: root root1)
  case Nil
  then show ?case by (auto split: node.splits)
next
  case (Cons y ys)
  then show ?case
    by (auto split: node.splits option.splits simp: update_conv')
qed

lemma isCancelled_createOperation [simp]: "\<not> isCancelled uuid (createOperation uuid type w)"
  by (simp add: isCancelled_def createOperation_def)

lemma operations_setFs [simp]: "isCancelled i (setFs w r) = isCancelled i w"
  by (simp add: isCancelled_def setFs_def)

text \<open>
  Claim C9: when the backup entry of \<open>P\<close> and \<open>T\<close> exists (for the handler's lookup and for
  the search of \<open>restoreBackup\<close>) and its payload exists, but \<open>P\<close> itself does not exist, the
  restore fails with "Original file not found", although the handler has created the
  parent directory of \<open>P\<close> first; \<open>P\<close> is still missing afterwards.
\<close>

theorem restore_needs_existing_original:
  assumes "findBackupByTimestamp cfg (fs w) P T = Some m" and "T \<noteq> []"
    and "mkdirRecursive (dirname P) (fs w) = Inr root1"
    and "\<not> existsSync (fs w) P"
    and "findBackupsByFilePath rt cfg root1 P = Inr backups"
    and "find (\<lambda>b. timestamp b = Some T) backups = Some b"
    and "backup_path b = Some bp" and "existsSync root1 bp"
  shows "callTool rt cfg clock uuid (Backup_restore (Some P) T flag) w =
           (ErrorResponse (OriginalFileNotFound P) (Some uuid),
            setFs (createOperation uuid ''backup_restore'' w) root1)
         \<and> \<not> existsSync root1 P"
proof -
  from assms(4) have P: "P \<noteq> []" by (auto simp: existsSync_def)
  then have split: "P = dirname P @ [last P]" by (simp add: dirname_def)
  from assms(3) have mk: "mkdirp (dirname P) (fs w) = Some root1"
    by (auto simp: mkdirRecursive_def split: option.splits)
  from assms(4) have "lookup (dirname P @ [last P]) (fs w) = None"
    using split by (simp add: existsSync_def)
  from mkdirp_keeps_absent [OF mk this] split have gone: "\<not> existsSync root1 P"
    by (simp add: existsSync_def)
  then have em: "createEmergencyBackup cfg d P root1 = (None, root1)" for d
    by (simp add: createEmergencyBackup_def)
  have rb: "restoreBackup rt cfg d P T f root1 = (Inl (OriginalFileNotFound P), root1)" for d f
    using assms(5-8) gone by (simp add: restoreBackup_def em)
  show ?thesis
    using assms(1-3) gone
    by (simp add: callTool_def toolName_def backup_restore_def em rb)
qed

theorem restore_needs_existing_original_witness:
  "findBackupByTimestamp cfg0 (fs wGone) fileA T1 = Some (meta T1) \<and>
   \<not> existsSync (fs wGone) fileA \<and>
   existsSync (fs wGone) (backupOf T1) \<and>
   callTool rt0 cfg0 clock0 ''op-1'' (Backup_restore (Some fileA) T1 True) wGone =
     (ErrorResponse (OriginalFileNotFound fileA) (Some ''op-1''),
      setFs (createOperation ''op-1'' ''backup_restore'' wGone) storeGone)"
proof -
  have 1: "findBackupByTimestamp cfg0 (fs wGone) fileA T1 = Some (meta T1)"
    by (simp add: engine_eval wGone_def storeGone_def)
  have 2: "T1 \<noteq> []" by (simp add: T1_def)
  have 3: "mkdirRecursive (dirname fileA) (fs wGone) = Inr storeGone"
    by (simp add: engine_eval wGone_def storeGone_def)
  have 4: "\<not> existsSync (fs wGone) fileA"
    by (simp add: engine_eval wGone_def storeGone_def)
  have 5: "findBackupsByFilePath rt0 cfg0 storeGone fileA = Inr [meta T1]"
    by (simp add: engine_eval storeGone_def)
  have 6: "find (\<lambda>b. timestamp b = Some T1) [meta T1] = Some (meta T1)"
    by (simp add: meta_def createBackupMetadata_def)
  have 7: "backup_path (meta T1) = Some (backupOf T1)"
    by (simp add: meta_def createBackupMetadata_def backupOf_def)
  have 8: "existsSync storeGone (backupOf T1)"
    by (simp add: engine_eval storeGone_def)
  have 9: "existsSync (fs wGone) (backupOf T1)"
    using 8 by (simp add: wGone_def)
  from restore_needs_existing_original [OF 1 2 3 4 5 6 7 8, of clock0 "''op-1''" True] 1 4 9
  show ?thesis by simp
qed

section \<open>The copy engine filters directories too\<close>

lemma update_fresh: "x \<notin> fst ` set es \<Longrightarrow> AList.update x v es = es @ [(x, v)]"
  by (induction es) auto

lemma map_of_fresh: "x \<notin> fst ` set es \<Longrightarrow> map_of es x = None"
  by (simp add: map_of_eq_None_iff)

lemma update_snoc: "x \<notin> fst ` set es \<Longrightarrow> AList.update x v (es @ [(x, u)]) = es @ [(x, v)]"
  by (induction es) auto

lemma map_of_snoc: "x \<notin> fst ` set es \<Longrightarrow> map_of (es @ [(x, v)]) x = Some v"
  by (induction es) auto

lemma lookup_append:
  "lookup (p @ q) n = (case lookup p n of None \<Rightarrow> None | Some m \<Rightarrow> lookup q m)"
  by (induction p arbitrary: n) (auto split: node.splits option.splits)

lemma lookup_replaceAt_same: "lookup p n = Some u \<Longrightarrow> lookup p (replaceAt p v n) = Some v"
  by (induction p arbitrary: n) (auto split: node.splits option.splits simp: update_conv')

lemma replaceAt_id: "lookup p n = Some v \<Longrightarrow> replaceAt p v n = n"
  by (induction p arbitrary: n) (auto split: node.splits option.splits simp: update_triv)

lemma replaceAt_append:
  "lookup p n = Some u \<Longrightarrow> replaceAt (p @ q) v (replaceAt p w n) = replaceAt p (replaceAt q v w) n"
  by (induction p arbitrary: n) (auto split: node.splits option.splits simp: update_conv')

lemma lookup_replaceAt_below:
  "lookup p n = Some u \<Longrightarrow> lookup (p @ r) (replaceAt p v n) = lookup r v"
  by (simp add: lookup_append lookup_replaceAt_same)

lemma writeNode_replace:
  "lookup p n = Some (Dir acc) \<Longrightarrow> x \<notin> fst ` set acc \<Longrightarrow>
   writeNode (p @ [x]) c n = Some (replaceAt p (Dir (acc @ [(x, File c)])) n)"
  by (induction p arbitrary: n)
     (auto split: node.splits option.splits simp: update_fresh map_of_fresh)

lemma mkdirp_replace:
  "lookup p n = Some (Dir acc) \<Longrightarrow> x \<notin> fst ` set acc \<Longrightarrow>
   mkdirp (p @ [x]) n = Some (replaceAt p (Dir (acc @ [(x, Dir [])])) n)"
  by (induction p arbitrary: n)
     (auto split: node.splits option.splits simp: update_fresh map_of_fresh)

lemma fst_pruneEntries: "fst ` set (pruneEntries rt inc exc es) \<subseteq> fst ` set es"
  by (induction rt inc exc es rule: pruneEntries.induct) auto

lemma copyEntries_replace:
  "lookup T root = Some (Dir acc) \<Longrightarrow> wfEntries es \<Longrightarrow> fst ` set es \<inter> fst ` set acc = {} \<Longrightarrow>
   copyEntries rt es T inc exc root = Inr (replaceAt T (Dir (acc @ pruneEntries rt inc exc es)) root)"
proof (induction rt es T inc exc root arbitrary: acc rule: copyEntries.induct)
  case (1 rt targetPath inc exc root)
  then show ?case by (simp add: replaceAt_id)
next
  case (2 rt name c es targetPath inc exc root)
  show ?case
  proof (cases "passes rt inc exc name")
    case False
    with 2 show ?thesis by auto
  next
    case True
    from "2.prems" have fresh: "name \<notin> fst ` set acc" and wf: "wfEntries es"
      and nin: "name \<notin> fst ` set es" by auto
    let ?root' = "replaceAt targetPath (Dir (acc @ [(name, File c)])) root"
    have w: "writeNode (targetPath @ [name]) c root = Some ?root'"
      using writeNode_replace [OF "2.prems"(1) fresh] .
    have l: "lookup targetPath ?root' = Some (Dir (acc @ [(name, File c)]))"
      using lookup_replaceAt_same [OF "2.prems"(1)] .
    have d: "fst ` set es \<inter> fst ` set (acc @ [(name, File c)]) = {}"
      using "2.prems"(3) nin by auto
    have "copyEntries rt es targetPath inc exc ?root' =
        Inr (replaceAt targetPath (Dir ((acc @ [(name, File c)]) @ pruneEntries rt inc exc es)) ?root')"
      using "2.IH"(2) [OF _ w l wf d] True by simp
    also have "replaceAt targetPath (Dir ((acc @ [(name, File c)]) @ pruneEntries rt inc exc es)) ?root'
        = replaceAt targetPath (Dir (acc @ pruneEntries rt inc exc ((name, File c) # es))) root"
      using replaceAt_append [OF "2.prems"(1), of "[]"] True by simp
    finally show ?thesis using True w by simp
  qed
next
  case (3 rt name sub es targetPath inc exc root)
  show ?case
  proof (cases "passes rt inc exc name")
    case False
    with 3 show ?thesis by auto
  next
    case True
    from "3.prems" have fresh: "name \<notin> fst ` set acc" and wf: "wfEntries es"
      and wfs: "wfEntries sub" and nin: "name \<notin> fst ` set es" by auto
    let ?root1 = "replaceAt targetPath (Dir (acc @ [(name, Dir [])])) root"
    let ?pr = "pruneEntries rt inc exc sub"
    let ?root2 = "replaceAt targetPath (Dir (acc @ [(name, Dir ?pr)])) root"
    have ne: "\<not> existsSync root (targetPath @ [name])"
      using "3.prems"(1) fresh by (simp add: existsSync_def lookup_append map_of_fresh)
    have m: "mkdirRecursive (targetPath @ [name]) root = Inr ?root1"
      using mkdirp_replace [OF "3.prems"(1) fresh] by (simp add: mkdirRecursive_def)
    have mk: "(if existsSync root (targetPath @ [name]) then Inr root
               else mkdirRecursive (targetPath @ [name]) root) = Inr ?root1"
      using ne m by simp
    have l1: "lookup (targetPath @ [name]) ?root1 = Some (Dir [])"
      using lookup_replaceAt_below [OF "3.prems"(1), of "[name]"] fresh
      by (simp add: map_of_snoc del: map_of_append)
    have inner: "copyEntries rt sub (targetPath @ [name]) inc exc ?root1 =
        Inr (replaceAt (targetPath @ [name]) (Dir ([] @ ?pr)) ?root1)"
      using "3.IH"(2) [OF _ mk l1 wfs] True by simp
    have r2: "replaceAt (targetPath @ [name]) (Dir ([] @ ?pr)) ?root1 = ?root2"
      using replaceAt_append [OF "3.prems"(1), of "[name]"] fresh
      by (simp add: map_of_snoc update_snoc del: map_of_append)
    have l2: "lookup targetPath ?root2 = Some (Dir (acc @ [(name, Dir ?pr)]))"
      using lookup_replaceAt_same [OF "3.prems"(1)] .
    have d: "fst ` set es \<inter> fst ` set (acc @ [(name, Dir ?pr)]) = {}"
      using "3.prems"(3) nin by auto
    have "copyEntries rt es targetPath inc exc ?root2 =
        Inr (replaceAt targetPath (Dir ((acc @ [(name, Dir ?pr)]) @ pruneEntries rt inc exc es)) ?root2)"
      using "3.IH"(3) [OF _ mk _ l2 wf d] True inner r2 by simp
    also have "replaceAt targetPath (Dir ((acc @ [(name, Dir ?pr)]) @ pruneEntries rt inc exc es)) ?root2
        = replaceAt targetPath (Dir (acc @ pruneEntries rt inc exc ((name, Dir sub) # es))) root"
      using replaceAt_append [OF "3.prems"(1), of "[]"] True by simp
    finally show ?thesis using True mk inner r2 by simp
  qed
qed

lemma pruneNode_simps [simp]:
  "pruneNode rt inc exc (File c) = File c"
  "pruneNode rt inc exc (Dir sub) = Dir (pruneEntries rt inc exc sub)"
  by (simp_all add: pruneNode_def)

lemma map_of_pruneEntries:
  "map_of (pruneEntries rt inc exc es) x =
     (if passes rt inc exc x then map_option (pruneNode rt inc exc) (map_of es x) else None)"
  by (induction rt inc exc es rule: pruneEntries.induct) auto

lemma lookup_pruneNode:
  "lookup r (pruneNode rt inc exc n) =
     (if list_all (passes rt inc exc) r then map_option (pruneNode rt inc exc) (lookup r n) else None)"
proof (induction r arbitrary: n)
  case Nil
  then show ?case by simp
next
  case (Cons x xs)
  show ?case
  proof (cases n)
    case (File c)
    then show ?thesis by simp
  next
    case (Dir es)
    then have "lookup (x # xs) (pruneNode rt inc exc n) =
        (case map_of (pruneEntries rt inc exc es) x of None \<Rightarrow> None | Some m \<Rightarrow> lookup xs m)"
      by simp
    then show ?thesis using Dir Cons.IH
      by (auto simp: map_of_pruneEntries split: option.splits)
  qed
qed

lemma pruneNode_File: "pruneNode rt inc exc n = File c \<longleftrightarrow> n = File c"
  by (cases n) auto

lemma pruneNode_Dir: "(\<exists>es. pruneNode rt inc exc n = Dir es) \<longleftrightarrow> (\<exists>es. n = Dir es)"
  by (cases n) auto

lemma mkdirp_empty: "mkdirp p (Dir []) = Some m \<Longrightarrow> lookup p m = Some (Dir [])"
  by (induction p arbitrary: m) (auto split: option.splits)

lemma mkdirp_fresh_target:
  "lookup T root = None \<Longrightarrow> mkdirp T root = Some root1 \<Longrightarrow> lookup T root1 = Some (Dir [])"
proof (induction T arbitrary: root root1)
  case Nil
  then show ?case by simp
next
  case (Cons x xs)
  then show ?case
    by (auto split: node.splits option.splits simp: update_conv' mkdirp_empty)
qed

lemma mkdirp_frame:
  "mkdirp p n = Some n' \<Longrightarrow> \<not> prefix q p \<Longrightarrow> lookup q n' = lookup q n"
proof (induction p arbitrary: q n n')
  case Nil
  then show ?case by (auto split: node.splits)
next
  case (Cons x xs)
  from Cons.prems(2) obtain y ys where q: "q = y # ys" by (cases q) auto
  from Cons.prems(1) obtain es m' where n: "n = Dir es"
    and m': "mkdirp xs (case map_of es x of None \<Rightarrow> Dir [] | Some m \<Rightarrow> m) = Some m'"
    and n': "n' = Dir (AList.update x m' es)"
    by (auto split: node.splits option.splits)
  show ?case
  proof (cases "y = x")
    case False
    then show ?thesis using q n n' by (simp add: update_conv')
  next
    case True
    with Cons.prems(2) q have np: "\<not> prefix ys xs" by simp
    then have ys: "ys \<noteq> []" by auto
    from Cons.IH [OF m' np] ys show ?thesis
      using q n n' True by (auto simp: update_conv' split: option.splits)
  qed
qed

lemma pruneNode_isDir:
  "(\<exists>e. map_option (pruneNode rt inc exc) x = Some (Dir e)) \<longleftrightarrow> (\<exists>e. x = Some (Dir e))"
proof (cases x)
  case None
  then show ?thesis by simp
next
  case (Some n)
  then show ?thesis by (cases n) auto
qed

lemma isDirectory_iff: "isDirectory root p \<longleftrightarrow> (\<exists>es. lookup p root = Some (Dir es))"
  by (auto simp: isDirectory_def split: option.splits node.splits)

text \<open>Sorting a listing changes neither what stands at a path nor whether names are unique.\<close>

lemma set_insertEntry: "set (insertEntry e es) = insert e (set es)"
  by (induction es) auto

lemma wfEntries_Cons:
  "wfEntries ((n, v) # es) \<longleftrightarrow>
     n \<notin> fst ` set es \<and> (case v of File c \<Rightarrow> True | Dir sub \<Rightarrow> wfEntries sub) \<and> wfEntries es"
  by (cases v) auto

lemma wfEntries_insertEntry:
  "wfEntries (insertEntry (n, v) es) \<longleftrightarrow>
     n \<notin> fst ` set es \<and> (case v of File c \<Rightarrow> True | Dir sub \<Rightarrow> wfEntries sub) \<and> wfEntries es"
proof (induction es)
  case Nil
  show ?case by (simp add: wfEntries_Cons)
next
  case (Cons f es)
  obtain m u where f: "f = (m, u)" by (cases f)
  show ?case
  proof (cases "str_less m n")
    case True
    then have "m \<noteq> n" by auto
    with True show ?thesis
      by (auto simp: f wfEntries_Cons [of m u] set_insertEntry Cons.IH)
  next
    case False
    then show ?thesis by (simp add: f wfEntries_Cons [of n v])
  qed
qed

lemma fst_set_sortedEntries: "fst ` set (sortedEntries es) = fst ` set es"
  by (induction es rule: sortedEntries.induct) (auto simp: set_insertEntry)

lemma wfEntries_sortedEntries: "wfEntries es \<Longrightarrow> wfEntries (sortedEntries es)"
  by (induction es rule: sortedEntries.induct)
     (simp_all add: wfEntries_insertEntry fst_set_sortedEntries)

lemma sortedNode_simps [simp]:
  "sortedNode (File c) = File c"
  "sortedNode (Dir sub) = Dir (sortedEntries sub)"
  by (simp_all add: sortedNode_def)

lemma map_of_insertEntry: "map_of (insertEntry e es) x = map_of (e # es) x"
  by (induction es) auto

lemma map_of_sortedEntries: "map_of (sortedEntries es) x = map_option sortedNode (map_of es x)"
  by (induction es rule: sortedEntries.induct) (simp_all add: map_of_insertEntry)

lemma lookup_sortedNode: "lookup r (sortedNode n) = map_option sortedNode (lookup r n)"
proof (induction r arbitrary: n)
  case Nil
  show ?case by simp
next
  case (Cons x xs)
  show ?case
  proof (cases n)
    case (File c)
    then show ?thesis by simp
  next
    case (Dir es)
    show ?thesis
    proof (cases "map_of es x")
      case None
      with Dir show ?thesis by (simp add: map_of_sortedEntries)
    next
      case (Some m)
      with Dir Cons.IH [of m] show ?thesis by (simp add: map_of_sortedEntries)
    qed
  qed
qed

lemma sorted_pruned_File:
  "map_option (pruneNode rt inc exc) (map_option sortedNode x) = Some (File c) \<longleftrightarrow> x = Some (File c)"
proof (cases x)
  case None
  then show ?thesis by simp
next
  case (Some n)
  then show ?thesis by (cases n) simp_all
qed

lemma sortedNode_isDir:
  "(\<exists>e. map_option sortedNode x = Some (Dir e)) \<longleftrightarrow> (\<exists>e. x = Some (Dir e))"
proof (cases x)
  case None
  then show ?thesis by simp
next
  case (Some n)
  then show ?thesis by (cases n) simp_all
qed

text \<open>
  Claim C4, amended: the tree copier applies the exclude and include tests to the name of
  every entry at every level, directories like files; only the source root is not
  tested. A directory whose name fails is skipped with all it holds. So, when a folder
  with well-formed listings is copied to a fresh target outside it, the copy succeeds and
  a file (a directory) stands at a relative path of the target exactly when it stands at
  that path of the source and every name on the path passes the tests: excluding
  \<open>*.tmp\<close> omits every \<open>*.tmp\<close> file at any depth, and with it every \<open>*.tmp\<close> directory and
  all below it.
\<close>

theorem copy_filters_every_entry:
  assumes src: "lookup src root = Some (Dir es)" and wf: "wfEntries es"
    and fresh: "\<not> existsSync root T"
    and mk: "mkdirRecursive T root = Inr root1"
    and out: "\<not> prefix src T"
  shows "\<exists>root'. copyFolderContents rt src T inc exc root = Inr root' \<and>
     (\<forall>r c. lookup (T @ r) root' = Some (File c) \<longleftrightarrow>
        (lookup (src @ r) root = Some (File c) \<and> list_all (passes rt inc exc) r)) \<and>
     (\<forall>r. isDirectory root' (T @ r) \<longleftrightarrow>
        (isDirectory root (src @ r) \<and> list_all (passes rt inc exc) r))"
proof -
  from mk have mkp: "mkdirp T root = Some root1"
    by (auto simp: mkdirRecursive_def split: option.splits)
  from fresh have "lookup T root = None" by (simp add: existsSync_def)
  from mkdirp_fresh_target [OF this mkp] have t1: "lookup T root1 = Some (Dir [])" .
  then have ex1: "existsSync root1 T" by (simp add: existsSync_def)
  have src1: "lookup src root1 = Some (Dir es)"
    using mkdirp_frame [OF mkp out] src by simp
  let ?root' = "replaceAt T (Dir (pruneEntries rt inc exc (sortedEntries es))) root1"
  have wfs: "wfEntries (sortedEntries es)" by (rule wfEntries_sortedEntries [OF wf])
  have "copyEntries rt (sortedEntries es) T inc exc root1 =
      Inr (replaceAt T (Dir ([] @ pruneEntries rt inc exc (sortedEntries es))) root1)"
    by (rule copyEntries_replace [OF t1 wfs]) simp
  then have copy: "copyFolderContents rt src T inc exc root = Inr ?root'"
    using mk ex1 src1 by (simp add: copyFolderContents_def copyFolderRecursive_def)
  have below: "lookup (T @ r) ?root' =
      (if list_all (passes rt inc exc) r
       then map_option (pruneNode rt inc exc) (map_option sortedNode (lookup r (Dir es))) else None)" for r
    using lookup_replaceAt_below [OF t1, of r "Dir (pruneEntries rt inc exc (sortedEntries es))"]
      lookup_pruneNode [of r rt inc exc "Dir (sortedEntries es)"] lookup_sortedNode [of r "Dir es"]
    by simp
  have from_src: "lookup (src @ r) root = lookup r (Dir es)" for r
    using src by (simp add: lookup_append)
  have files: "lookup (T @ r) ?root' = Some (File c) \<longleftrightarrow>
      (lookup (src @ r) root = Some (File c) \<and> list_all (passes rt inc exc) r)" for r c
  proof (cases "list_all (passes rt inc exc) r")
    case True
    show ?thesis
      unfolding below from_src
      by (simp only: True if_True sorted_pruned_File simp_thms)
  next
    case False
    show ?thesis
      unfolding below from_src
      by (simp only: False if_False) simp
  qed
  have dirs: "isDirectory ?root' (T @ r) \<longleftrightarrow>
      (isDirectory root (src @ r) \<and> list_all (passes rt inc exc) r)" for r
  proof (cases "list_all (passes rt inc exc) r")
    case True
    show ?thesis
      unfolding isDirectory_iff below from_src
      by (simp only: True if_True pruneNode_isDir sortedNode_isDir simp_thms)
  next
    case False
    show ?thesis
      unfolding isDirectory_iff below from_src
      by (simp only: False if_False) simp
  qed
  from copy files dirs show ?thesis by blast
qed

lemmas copy_eval =
  copyFolderContents_def copyFolderRecursive_def mkdirRecursive_def passes_def active_def
  rt0_def simpleMinimatch_def fs_eval

lemma copy_treeC:
  "copyFolderContents rt0 [''proj''] [''bk'', ''proj.copy''] None (Some ''*.tmp'') treeC = Inr treeC'"
  by (simp add: copy_eval treeC_def treeC'_def)

text \<open>
  Claim C4, as stated: the copier recurses into every directory whether or not its own
  name matches, so that with \<open>exclude = *.tmp\<close> all directories and all non-matching files
  are preserved. It fails for a directory named \<open>cache.tmp\<close>: the directory is skipped, and
  the file \<open>keep.txt\<close> in it, which does not match \<open>*.tmp\<close>, is missing from the copy.
\<close>

theorem copy_recurses_into_every_directory_counterexample:
  "lookup [''proj'', ''cache.tmp'', ''keep.txt''] treeC = Some (File (Bytes ''k'')) \<and>
   \<not> minimatch rt0 ''keep.txt'' ''*.tmp'' \<and>
   copyFolderContents rt0 [''proj''] [''bk'', ''proj.copy''] None (Some ''*.tmp'') treeC = Inr treeC' \<and>
   lookup [''bk'', ''proj.copy'', ''cache.tmp''] treeC' = None \<and>
   lookup [''bk'', ''proj.copy'', ''cache.tmp'', ''keep.txt''] treeC' = None"
  by (simp add: copy_treeC) (simp add: treeC_def treeC'_def rt0_def simpleMinimatch_def)

theorem copy_filters_every_entry_witness:
  "copyFolderContents rt0 [''proj''] [''bk'', ''proj.copy''] None (Some ''*.tmp'') treeC = Inr treeC' \<and>
   lookup ([''bk'', ''proj.copy''] @ [''sub'', ''c.txt'']) treeC' = Some (File (Bytes ''c'')) \<and>
   lookup ([''bk'', ''proj.copy''] @ [''sub'', ''d.tmp'']) treeC' \<noteq> Some (File (Bytes ''d'')) \<and>
   \<not> isDirectory treeC' ([''bk'', ''proj.copy''] @ [''cache.tmp''])"
proof -
  have 1: "lookup [''proj''] treeC = Some (Dir [
        (''a.txt'', File (Bytes ''a'')),
        (''b.tmp'', File (Bytes ''b'')),
        (''cache.tmp'', Dir [(''keep.txt'', File (Bytes ''k''))]),
        (''sub'', Dir [(''c.txt'', File (Bytes ''c'')), (''d.tmp'', File (Bytes ''d''))])])"
    by (simp add: treeC_def)
  have 2: "wfEntries [
        (''a.txt'', File (Bytes ''a'')),
        (''b.tmp'', File (Bytes ''b'')),
        (''cache.tmp'', Dir [(''keep.txt'', File (Bytes ''k''))]),
        (''sub'', Dir [(''c.txt'', File (Bytes ''c'')), (''d.tmp'', File (Bytes ''d''))])]"
    by simp
  have 3: "\<not> existsSync treeC [''bk'', ''proj.copy'']"
    by (simp add: treeC_def existsSync_def)
  have 4: "mkdirRecursive [''bk'', ''proj.copy''] treeC =
             Inr (the (mkdirp [''bk'', ''proj.copy''] treeC))"
    by (simp add: treeC_def mkdirRecursive_def)
  have 5: "\<not> prefix [''proj''] [''bk'', ''proj.copy'']" by simp
  from copy_filters_every_entry [OF 1 2 3 4 5, of rt0 None "Some ''*.tmp''"]
  obtain root' where r: "copyFolderContents rt0 [''proj''] [''bk'', ''proj.copy''] None (Some ''*.tmp'') treeC = Inr root'"
    and f: "\<And>r c. lookup ([''bk'', ''proj.copy''] @ r) root' = Some (File c) \<longleftrightarrow>
        (lookup ([''proj''] @ r) treeC = Some (File c) \<and> list_all (passes rt0 None (Some ''*.tmp'')) r)"
    and d: "\<And>r. isDirectory root' ([''bk'', ''proj.copy''] @ r) \<longleftrightarrow>
        (isDirectory treeC ([''proj''] @ r) \<and> list_all (passes rt0 None (Some ''*.tmp'')) r)"
    by blast
  from r copy_treeC have eq: "root' = treeC'" by simp
  have a: "lookup ([''bk'', ''proj.copy''] @ [''sub'', ''c.txt'']) treeC' = Some (File (Bytes ''c''))"
    using f [of "[''sub'', ''c.txt'']" "Bytes ''c''"] unfolding eq
    by (simp add: treeC_def passes_def active_def rt0_def simpleMinimatch_def)
  have b: "lookup ([''bk'', ''proj.copy''] @ [''sub'', ''d.tmp'']) treeC' \<noteq> Some (File (Bytes ''d''))"
    using f [of "[''sub'', ''d.tmp'']" "Bytes ''d''"] unfolding eq
    by (simp add: passes_def active_def rt0_def simpleMinimatch_def)
  have c: "\<not> isDirectory treeC' ([''bk'', ''proj.copy''] @ [''cache.tmp''])"
    using d [of "[''cache.tmp'']"] unfolding eq
    by (simp add: passes_def active_def rt0_def simpleMinimatch_def)
  from copy_treeC a b c show ?thesis by simp
qed

section \<open>Round trip of a file backup\<close>

text \<open>Names that the engine builds: the parts of a backup name hold no separator.\<close>

lemma splitSlash_nonempty: "splitSlash s \<noteq> []"
  by (induction s) (auto split: list.splits)

lemma splitSlash_single: "CHR ''/'' \<notin> set s \<Longrightarrow> splitSlash s = [s]"
  by (induction s) auto

lemma joinPath_validName: "validName n \<Longrightarrow> joinPath d n = d @ [n]"
  by (simp add: joinPath_def validName_def splitSlash_single pathStep_def)

lemma joinAppend_validName: "validName n \<Longrightarrow> joinAppend d n t = d @ [n @ t]"
proof -
  assume v: "validName n"
  then have "n \<noteq> []" "CHR ''/'' \<notin> set n" by (simp_all add: validName_def)
  then have "last n \<noteq> CHR ''/''" by (metis last_in_set)
  with v show ?thesis
    by (simp add: joinAppend_def joinPath_validName appendToPath_def basename_def)
qed

lemma validName_long: "CHR ''/'' \<notin> set n \<Longrightarrow> 3 \<le> length n \<Longrightarrow> validName n"
  by (auto simp: validName_def)

lemma digit_in: "n < 10 \<Longrightarrow> digit n \<in> set ''0123456789''"
  unfolding digit_def by (rule nth_mem) simp

lemma natToString_chars: "set (natToString n) \<subseteq> set ''0123456789''"
proof (induction n rule: natToString.induct)
  case (1 n)
  show ?case
  proof (cases "n < 10")
    case True
    then show ?thesis using digit_in [of n] by (simp add: natToString.simps [of n])
  next
    case False
    have "n mod 10 < 10" by simp
    from digit_in [OF this] "1.IH" [OF False] False show ?thesis
      by (simp add: natToString.simps [of n])
  qed
qed

lemma digits_sub: "set ''0123456789'' \<subseteq> set ''-0123456789''"
  by (rule set_mono_suffix) (simp add: suffix_def)

lemma zero_digit: "CHR ''0'' \<in> set ''-0123456789''"
  by simp

lemma natToString_chars': "set (natToString n) \<subseteq> set ''-0123456789''"
  by (rule subset_trans [OF natToString_chars digits_sub])

lemma set_replicate_sub: "set (replicate m x) \<subseteq> {x}"
  by (induction m) auto

lemma padStart_chars:
  "set (padStart k (CHR ''0'') (natToString n)) \<subseteq> set ''-0123456789''"
proof -
  have "set (replicate (k - length (natToString n)) (CHR ''0'')) \<subseteq> {CHR ''0''}"
    by (rule set_replicate_sub)
  also have "\<dots> \<subseteq> set ''-0123456789''" using zero_digit by blast
  finally show ?thesis
    unfolding padStart_def set_append Un_subset_iff using natToString_chars' by blast
qed

lemma intToString_chars: "set (intToString i) \<subseteq> set ''-0123456789''"
proof (cases "i < 0")
  case True
  have "CHR ''-'' \<in> set ''-0123456789''" by simp
  with natToString_chars' [of "nat (- i)"] True show ?thesis
    unfolding intToString_def by (simp only: if_True set_simps insert_subset)
next
  case False
  with natToString_chars' [of "nat i"] show ?thesis
    unfolding intToString_def by (simp only: if_False)
qed

lemma generateTimestamp_chars: "set (generateTimestamp d) \<subseteq> set ''-0123456789''"
proof -
  have m: "set ''-'' \<subseteq> set ''-0123456789''" by simp
  show ?thesis
    unfolding generateTimestamp_def Let_def set_append Un_subset_iff
    by (intro conjI intToString_chars padStart_chars m)
qed

lemma generateTimestamp_no_slash: "CHR ''/'' \<notin> set (generateTimestamp d)"
  using generateTimestamp_chars [of d] by auto

lemma generateTimestamp_length: "2 \<le> length (generateTimestamp d)"
  by (simp add: generateTimestamp_def Let_def)

lemma natToString_ne: "natToString n \<noteq> []"
  by (simp add: natToString.simps [of n])

lemma generateTimestamp_last: "last (generateTimestamp d) \<in> set ''0123456789''"
proof -
  have ne: "padStart 3 (CHR ''0'') (natToString (getMilliseconds d)) \<noteq> []"
    by (simp add: padStart_def natToString_ne)
  have "last (generateTimestamp d) = last (padStart 3 (CHR ''0'') (natToString (getMilliseconds d)))"
    using ne by (simp add: generateTimestamp_def Let_def)
  also have "\<dots> = last (natToString (getMilliseconds d))"
    by (simp add: padStart_def natToString_ne)
  also have "\<dots> \<in> set (natToString (getMilliseconds d))"
    by (simp add: natToString_ne)
  finally show ?thesis using natToString_chars by blast
qed

lemma not_meta_suffix: "\<not> endsWith (b @ ''.'' @ generateTimestamp d) ''.meta.json''"
proof
  assume "endsWith (b @ ''.'' @ generateTimestamp d) ''.meta.json''"
  then obtain z where "b @ ''.'' @ generateTimestamp d = z @ ''.meta.json''"
    by (auto simp: endsWith_def suffix_def)
  then have "last (b @ ''.'' @ generateTimestamp d) = last (z @ ''.meta.json'')" by simp
  moreover have "generateTimestamp d \<noteq> []" using generateTimestamp_length [of d] by auto
  ultimately have "last (generateTimestamp d) = CHR ''n''" by simp
  with generateTimestamp_last [of d] show False by simp
qed




lemma set_insertBy: "set (insertBy cmp x ys) = insert x (set ys)"
  by (induction ys) auto

lemma set_sortBy: "set (sortBy cmp xs) = set xs"
  by (induction xs) (auto simp: sortBy_def set_insertBy)

lemma find_SomeD: "find Q xs = Some b \<Longrightarrow> b \<in> set xs \<and> Q b"
  by (induction xs) (auto split: if_splits)

lemma find_exists: "x \<in> set xs \<Longrightarrow> Q x \<Longrightarrow> \<exists>b. find Q xs = Some b"
  by (induction xs) auto

lemma set_metadataOf:
  "m \<in> set (metadataOf root files) \<longleftrightarrow> (\<exists>q \<in> set files. readBackupMetadata root q = Some m)"
proof -
  have "m \<in> set (case readBackupMetadata root q of None \<Rightarrow> [] | Some m \<Rightarrow> [m])
      \<longleftrightarrow> readBackupMetadata root q = Some m" for q
    by (cases "readBackupMetadata root q") auto
  then show ?thesis by (simp add: metadataOf_def)
qed


lemma items_sound:
  "q \<in> set (items d es) \<Longrightarrow> prefix d q \<and> q \<noteq> [] \<and> endsWith (basename q) ''.meta.json''"
proof (induction d es rule: items.induct)
  case (1 d)
  then show ?case by simp
next
  case (2 d item c es)
  then show ?case by (auto simp: basename_def split: if_splits)
next
  case (3 d item sub es)
  then show ?case by (auto dest: append_prefixD)
qed

lemma items_complete:
  "lookup s (Dir es) = Some (File c) \<Longrightarrow> endsWith (basename s) ''.meta.json'' \<Longrightarrow>
   d @ s \<in> set (items d es)"
proof (induction d es arbitrary: s rule: items.induct)
  case (1 d)
  then show ?case by (cases s) auto
next
  case (2 d item c' es)
  from "2.prems"(1) obtain x xs where s: "s = x # xs" by (cases s) auto
  show ?case
  proof (cases "x = item")
    case True
    with "2.prems" s have "xs = []" by (cases xs) auto
    with "2.prems" s True show ?thesis by (simp add: basename_def)
  next
    case False
    with "2.prems" s have "lookup s (Dir es) = Some (File c)" by simp
    from "2.IH" [OF this "2.prems"(2)] show ?thesis by simp
  qed
next
  case (3 d item sub es)
  from "3.prems"(1) obtain x xs where s: "s = x # xs" by (cases s) auto
  show ?case
  proof (cases "x = item")
    case True
    with "3.prems" s have l: "lookup xs (Dir sub) = Some (File c)" by simp
    then have ne: "xs \<noteq> []" by auto
    with "3.prems"(2) s have "endsWith (basename xs) ''.meta.json''" by (simp add: basename_def)
    from "3.IH"(1) [OF l this] s True show ?thesis by simp
  next
    case False
    with "3.prems" s have "lookup s (Dir es) = Some (File c)" by simp
    from "3.IH"(2) [OF this "3.prems"(2)] show ?thesis by simp
  qed
qed

text \<open>What writing, unlinking and creating directories leave in place.\<close>

lemma lookup_File [simp]: "p \<noteq> [] \<Longrightarrow> lookup p (File c) = None"
  by (cases p) simp_all

lemma writeNode_frame:
  "writeNode p c n = Some n' \<Longrightarrow> \<not> prefix q p \<Longrightarrow> lookup q n' = lookup q n"
proof (induction p arbitrary: q n n')
  case Nil
  then show ?case by simp
next
  case (Cons x xs)
  from Cons.prems(2) obtain y ys where q: "q = y # ys" by (cases q) auto
  from Cons.prems(1) obtain es where n: "n = Dir es" by (cases n) auto
  show ?case
  proof (cases "y = x")
    case False
    with Cons.prems(1) q n show ?thesis
      by (auto simp: update_conv' split: if_splits option.splits node.splits)
  next
    case True
    with Cons.prems(2) q have np: "\<not> prefix ys xs" by simp
    then have ys: "ys \<noteq> []" by auto
    show ?thesis
    proof (cases "xs = []")
      case True
      with Cons.prems(1) n q \<open>y = x\<close> ys show ?thesis
        by (auto simp: update_conv' split: option.splits node.splits)
    next
      case False
      with Cons.prems(1) n obtain m m' where m: "map_of es x = Some m"
        and w: "writeNode xs c m = Some m'" and n': "n' = Dir (AList.update x m' es)"
        by (auto split: option.splits)
      from Cons.IH [OF w np] show ?thesis using q n n' m \<open>y = x\<close> by (simp add: update_conv')
    qed
  qed
qed

lemma writeNode_same: "writeNode p c n = Some n' \<Longrightarrow> lookup p n' = Some (File c)"
proof (induction p arbitrary: n n')
  case Nil
  then show ?case by simp
next
  case (Cons x xs)
  then show ?case
    by (cases "xs = []") (auto simp: update_conv' split: option.splits node.splits)
qed

lemma writeNode_prefix_dir:
  "writeNode p c n = Some n' \<Longrightarrow> strict_prefix q p \<Longrightarrow>
   (\<exists>es. lookup q n = Some (Dir es)) \<and> (\<exists>es. lookup q n' = Some (Dir es))"
proof (induction p arbitrary: q n n')
  case Nil
  then show ?case by simp
next
  case (Cons x xs)
  from Cons.prems(1) obtain es where n: "n = Dir es" by (cases n) auto
  show ?case
  proof (cases q)
    case Nil
    with Cons.prems(1) n show ?thesis
      by (auto split: if_splits option.splits node.splits)
  next
    case (Cons y ys)
    with Cons.prems(2) have y: "y = x" and sp: "strict_prefix ys xs" by auto
    then have "xs \<noteq> []" by auto
    with Cons.prems(1) n obtain m m' where m: "map_of es x = Some m"
      and w: "writeNode xs c m = Some m'" and n': "n' = Dir (AList.update x m' es)"
      by (auto split: option.splits)
    from Cons.IH [OF w sp] show ?thesis using Cons y n n' m by (simp add: update_conv')
  qed
qed

lemma unlinkNode_frame:
  "unlinkNode p n = Some n' \<Longrightarrow> \<not> prefix q p \<Longrightarrow> lookup q n' = lookup q n"
proof (induction p arbitrary: q n n')
  case Nil
  then show ?case by simp
next
  case (Cons x xs)
  from Cons.prems(2) obtain y ys where q: "q = y # ys" by (cases q) auto
  from Cons.prems(1) obtain es where n: "n = Dir es" by (cases n) auto
  show ?case
  proof (cases "y = x")
    case False
    with Cons.prems(1) q n show ?thesis
      by (auto simp: update_conv' delete_conv' split: if_splits option.splits node.splits)
  next
    case True
    with Cons.prems(2) q have np: "\<not> prefix ys xs" by simp
    then have ys: "ys \<noteq> []" by auto
    show ?thesis
    proof (cases "xs = []")
      case True
      with Cons.prems(1) n q \<open>y = x\<close> ys show ?thesis
        by (auto simp: delete_conv' split: option.splits node.splits)
    next
      case False
      with Cons.prems(1) n obtain m m' where m: "map_of es x = Some m"
        and w: "unlinkNode xs m = Some m'" and n': "n' = Dir (AList.update x m' es)"
        by (auto split: option.splits)
      from Cons.IH [OF w np] show ?thesis using q n n' m \<open>y = x\<close> by (simp add: update_conv')
    qed
  qed
qed

lemma unlinkNode_same: "unlinkNode p n = Some n' \<Longrightarrow> lookup p n' = None \<and> (\<exists>c. lookup p n = Some (File c))"
proof (induction p arbitrary: n n')
  case Nil
  then show ?case by simp
next
  case (Cons x xs)
  then show ?case
    by (cases "xs = []") (auto simp: update_conv' delete_conv' split: option.splits node.splits)
qed

lemma unlinkNode_prefix_dir:
  "unlinkNode p n = Some n' \<Longrightarrow> strict_prefix q p \<Longrightarrow>
   (\<exists>es. lookup q n = Some (Dir es)) \<and> (\<exists>es. lookup q n' = Some (Dir es))"
proof (induction p arbitrary: q n n')
  case Nil
  then show ?case by simp
next
  case (Cons x xs)
  from Cons.prems(1) obtain es where n: "n = Dir es" by (cases n) auto
  show ?case
  proof (cases q)
    case Nil
    with Cons.prems(1) n show ?thesis
      by (auto split: if_splits option.splits node.splits)
  next
    case (Cons y ys)
    with Cons.prems(2) have y: "y = x" and sp: "strict_prefix ys xs" by auto
    then have "xs \<noteq> []" by auto
    with Cons.prems(1) n obtain m m' where m: "map_of es x = Some m"
      and w: "unlinkNode xs m = Some m'" and n': "n' = Dir (AList.update x m' es)"
      by (auto split: option.splits)
    from Cons.IH [OF w sp] show ?thesis using Cons y n n' m by (simp add: update_conv')
  qed
qed

lemma mkdirp_prefix_dir:
  "mkdirp p n = Some n' \<Longrightarrow> prefix q p \<Longrightarrow>
   (\<exists>es. lookup q n' = Some (Dir es)) \<and> (lookup q n = None \<or> (\<exists>es. lookup q n = Some (Dir es)))"
proof (induction p arbitrary: q n n')
  case Nil
  then show ?case by (auto split: node.splits)
next
  case (Cons x xs)
  from Cons.prems(1) obtain es m' where n: "n = Dir es"
    and m': "mkdirp xs (case map_of es x of None \<Rightarrow> Dir [] | Some m \<Rightarrow> m) = Some m'"
    and n': "n' = Dir (AList.update x m' es)"
    by (auto split: node.splits option.splits)
  show ?case
  proof (cases q)
    case Nil
    with n n' show ?thesis by simp
  next
    case (Cons y ys)
    with Cons.prems(2) have y: "y = x" and sp: "prefix ys xs" by auto
    from Cons.IH [OF m' sp] show ?thesis using Cons y n n'
      by (cases "map_of es x") (auto simp: update_conv')
  qed
qed

lemma file_fwd_write:
  assumes "lookup q n = Some (File c0)" "writeNode p c n = Some n'" "q \<noteq> p"
  shows "lookup q n' = Some (File c0)"
proof (cases "prefix q p")
  case True
  with assms(3) have "strict_prefix q p" by (simp add: strict_prefix_def)
  from writeNode_prefix_dir [OF assms(2) this] assms(1) show ?thesis by auto
next
  case False
  from writeNode_frame [OF assms(2) False] assms(1) show ?thesis by simp
qed

lemma file_bwd_write:
  assumes "lookup q n' = Some (File c0)" "writeNode p c n = Some n'" "q \<noteq> p"
  shows "lookup q n = Some (File c0)"
proof (cases "prefix q p")
  case True
  with assms(3) have "strict_prefix q p" by (simp add: strict_prefix_def)
  from writeNode_prefix_dir [OF assms(2) this] assms(1) show ?thesis by auto
next
  case False
  from writeNode_frame [OF assms(2) False] assms(1) show ?thesis by simp
qed

lemma file_fwd_unlink:
  assumes "lookup q n = Some (File c0)" "unlinkNode p n = Some n'" "q \<noteq> p"
  shows "lookup q n' = Some (File c0)"
proof (cases "prefix q p")
  case True
  with assms(3) have "strict_prefix q p" by (simp add: strict_prefix_def)
  from unlinkNode_prefix_dir [OF assms(2) this] assms(1) show ?thesis by auto
next
  case False
  from unlinkNode_frame [OF assms(2) False] assms(1) show ?thesis by simp
qed

lemma file_bwd_unlink:
  assumes "lookup q n' = Some (File c0)" "unlinkNode p n = Some n'"
  shows "lookup q n = Some (File c0)"
proof (cases "prefix q p")
  case True
  from unlinkNode_same [OF assms(2)] assms(1) have "q \<noteq> p" by auto
  with True have "strict_prefix q p" by (simp add: strict_prefix_def)
  from unlinkNode_prefix_dir [OF assms(2) this] assms(1) show ?thesis by auto
next
  case False
  from unlinkNode_frame [OF assms(2) False] assms(1) show ?thesis by simp
qed

lemma none_stays_unlink:
  assumes "lookup q n = None" "unlinkNode p n = Some n'"
  shows "lookup q n' = None"
proof (cases "prefix q p")
  case True
  show ?thesis
  proof (cases "q = p")
    case True
    with unlinkNode_same [OF assms(2)] show ?thesis by simp
  next
    case False
    with True have "strict_prefix q p" by (simp add: strict_prefix_def)
    from unlinkNode_prefix_dir [OF assms(2) this] assms(1) show ?thesis by auto
  qed
next
  case False
  from unlinkNode_frame [OF assms(2) False] assms(1) show ?thesis by simp
qed

lemma file_fwd_mkdirp:
  assumes "lookup q n = Some (File c0)" "mkdirp p n = Some n'"
  shows "lookup q n' = Some (File c0)"
proof (cases "prefix q p")
  case True
  from mkdirp_prefix_dir [OF assms(2) this] assms(1) show ?thesis by auto
next
  case False
  from mkdirp_frame [OF assms(2) False] assms(1) show ?thesis by simp
qed

lemma file_bwd_mkdirp:
  assumes "lookup q n' = Some (File c0)" "mkdirp p n = Some n'"
  shows "lookup q n = Some (File c0)"
proof (cases "prefix q p")
  case True
  from mkdirp_prefix_dir [OF assms(2) this] assms(1) show ?thesis by auto
next
  case False
  from mkdirp_frame [OF assms(2) False] assms(1) show ?thesis by simp
qed

lemma mkdirp_existing: "lookup (d @ [x]) r = Some n \<Longrightarrow> mkdirp d r = Some r"
proof (induction d arbitrary: r)
  case Nil
  then show ?case by (cases r) auto
next
  case (Cons y ys)
  then show ?case
    by (cases r) (auto simp: update_triv split: option.splits)
qed

lemma write_existing: "lookup p r = Some (File c0) \<Longrightarrow> p \<noteq> [] \<Longrightarrow> \<exists>r'. writeNode p c r = Some r'"
proof (induction p arbitrary: r)
  case Nil
  then show ?case by simp
next
  case (Cons x xs)
  from Cons.prems(1) obtain es m where r: "r = Dir es" and m: "map_of es x = Some m"
    and l: "lookup xs m = Some (File c0)"
    by (cases r) (auto split: option.splits)
  show ?case
  proof (cases "xs = []")
    case True
    with l have "m = File c0" by simp
    with r m True show ?thesis by simp
  next
    case False
    from Cons.IH [OF l False] obtain m' where "writeNode xs c m = Some m'" by blast
    with r m False show ?thesis by simp
  qed
qed

lemma removeBackups_none:
  "lookup q r = None \<Longrightarrow> lookup q (removeBackups bs r) = None"
proof (induction bs arbitrary: r)
  case Nil
  then show ?case by simp
next
  case (Cons b bs)
  then show ?case
    by (auto simp: unlinkSync_def split: option.splits sum.splits dest: none_stays_unlink)
qed

lemma removeBackups_bwd:
  "lookup q (removeBackups bs r) = Some (File c) \<Longrightarrow> lookup q r = Some (File c)"
proof (induction bs arbitrary: r)
  case Nil
  then show ?case by simp
next
  case (Cons b bs)
  then show ?case
    by (auto simp: unlinkSync_def split: option.splits sum.splits dest: file_bwd_unlink)
qed

lemma removeBackups_fwd:
  "lookup q r = Some (File c) \<Longrightarrow>
   lookup q (removeBackups bs r) = None \<or> lookup q (removeBackups bs r) = Some (File c)"
proof (induction bs arbitrary: r)
  case Nil
  then show ?case by simp
next
  case (Cons b bs)
  show ?case
  proof (cases "backup_path b")
    case None
    with Cons show ?thesis by simp
  next
    case (Some bp)
    show ?thesis
    proof (cases "unlinkNode bp r")
      case None
      with Some Cons show ?thesis by (simp add: unlinkSync_def)
    next
      case (Some r')
      show ?thesis
      proof (cases "q = bp")
        case True
        with unlinkNode_same [OF Some] have "lookup q r' = None" by simp
        from removeBackups_none [OF this, of bs] Some \<open>backup_path b = Some bp\<close>
        show ?thesis by (simp add: unlinkSync_def)
      next
        case False
        from file_fwd_unlink [OF Cons.prems Some False] have "lookup q r' = Some (File c)" .
        from Cons.IH [OF this] Some \<open>backup_path b = Some bp\<close>
        show ?thesis by (simp add: unlinkSync_def)
      qed
    qed
  qed
qed

lemma parsedName_chars: "set (parsedName b) \<subseteq> set b"
proof -
  have "set (rev (tl (dropWhile (\<lambda>c. c \<noteq> CHR ''.'') (rev b)))) \<subseteq> set b"
    by (metis set_rev list.set_sel(2) set_dropWhileD subsetI tl_Nil)
  then show ?thesis by (simp add: parsedName_def Let_def)
qed

text \<open>Consistent stores stay consistent, and the emergency snapshot keeps out of the store.\<close>

lemma readBackupMetadata_Json:
  "lookup q r = Some (File (Json m)) \<Longrightarrow> readBackupMetadata r q = Some m"
  by (simp add: readBackupMetadata_def)

lemma readBackupMetadata_orig:
  "readBackupMetadata r q = Some m \<Longrightarrow> original_path m = Some P \<Longrightarrow>
   lookup q r = Some (File (Json m))"
  by (auto simp: readBackupMetadata_def noProperties_def
      split: option.splits node.splits content.splits)

lemma storeConsistent_empty:
  assumes "lookup (BACKUP_DIR cfg) r = None"
  shows "storeConsistent cfg P r"
  unfolding storeConsistent_def
proof (intro allI impI)
  fix q m
  assume a: "prefix (BACKUP_DIR cfg) q \<and> endsWith (basename q) ''.meta.json'' \<and>
       readBackupMetadata r q = Some m \<and> original_path m = Some P"
  then obtain s where "q = BACKUP_DIR cfg @ s" by (auto elim: prefixE)
  with assms have "lookup q r = None" by (simp add: lookup_append)
  with a have False by (simp add: readBackupMetadata_def)
  then show "\<exists>ts. timestamp m = Some ts \<and>
       backup_path m = Some (getBackupDir cfg P @ [getBackupFilename P ts])" ..
qed

lemma storeConsistentI:
  assumes "storeConsistent cfg P r"
    and "\<And>q m. prefix (BACKUP_DIR cfg) q \<Longrightarrow> endsWith (basename q) ''.meta.json'' \<Longrightarrow>
           lookup q r' = Some (File (Json m)) \<Longrightarrow> original_path m = Some P \<Longrightarrow>
           lookup q r = Some (File (Json m)) \<or>
           (\<exists>ts. timestamp m = Some ts \<and>
              backup_path m = Some (getBackupDir cfg P @ [getBackupFilename P ts]))"
  shows "storeConsistent cfg P r'"
  unfolding storeConsistent_def
proof (intro allI impI)
  fix q m
  assume a: "prefix (BACKUP_DIR cfg) q \<and> endsWith (basename q) ''.meta.json'' \<and>
          readBackupMetadata r' q = Some m \<and> original_path m = Some P"
  then have l: "lookup q r' = Some (File (Json m))" by (blast dest: readBackupMetadata_orig)
  from assms(2) [of q m] a l
  consider "lookup q r = Some (File (Json m))"
    | "\<exists>ts. timestamp m = Some ts \<and>
          backup_path m = Some (getBackupDir cfg P @ [getBackupFilename P ts])"
    by blast
  then show "\<exists>ts. timestamp m = Some ts \<and>
          backup_path m = Some (getBackupDir cfg P @ [getBackupFilename P ts])"
  proof cases
    case 1
    then have "readBackupMetadata r q = Some m" by (rule readBackupMetadata_Json)
    with assms(1) a show ?thesis
      unfolding storeConsistent_def by blast
  next
    case 2
    then show ?thesis .
  qed
qed

lemma storeConsistent_mkdirp:
  "storeConsistent cfg P r \<Longrightarrow> mkdirp p r = Some r' \<Longrightarrow> storeConsistent cfg P r'"
  by (erule storeConsistentI) (blast dest: file_bwd_mkdirp)

lemma storeConsistent_write_other:
  assumes "storeConsistent cfg P r" "writeNode p c r = Some r'"
    and "\<not> (prefix (BACKUP_DIR cfg) p \<and> endsWith (basename p) ''.meta.json'')"
  shows "storeConsistent cfg P r'"
proof (rule storeConsistentI [OF assms(1)])
  fix q m
  assume "prefix (BACKUP_DIR cfg) q" "endsWith (basename q) ''.meta.json''"
    and l: "lookup q r' = Some (File (Json m))"
  with assms(3) have "q \<noteq> p" by blast
  from file_bwd_write [OF l assms(2) this]
  show "lookup q r = Some (File (Json m)) \<or>
       (\<exists>ts. timestamp m = Some ts \<and>
          backup_path m = Some (getBackupDir cfg P @ [getBackupFilename P ts]))" by simp
qed

lemma storeConsistent_write_desc:
  assumes "storeConsistent cfg P r" "writeNode p (Json m0) r = Some r'"
    and "timestamp m0 = Some ts0" "backup_path m0 = Some (getBackupDir cfg P @ [getBackupFilename P ts0])"
  shows "storeConsistent cfg P r'"
proof (rule storeConsistentI [OF assms(1)])
  fix q m
  assume l: "lookup q r' = Some (File (Json m))"
  show "lookup q r = Some (File (Json m)) \<or>
       (\<exists>ts. timestamp m = Some ts \<and>
          backup_path m = Some (getBackupDir cfg P @ [getBackupFilename P ts]))"
  proof (cases "q = p")
    case True
    with writeNode_same [OF assms(2)] l have "m = m0" by simp
    with assms(3,4) show ?thesis by blast
  next
    case False
    from file_bwd_write [OF l assms(2) False] show ?thesis by simp
  qed
qed

lemma storeConsistent_removeBackups:
  "storeConsistent cfg P r \<Longrightarrow> storeConsistent cfg P (removeBackups bs r)"
  by (erule storeConsistentI) (blast dest: removeBackups_bwd)

lemma no_slash_append: "CHR ''/'' \<notin> set a \<Longrightarrow> CHR ''/'' \<notin> set b \<Longrightarrow> CHR ''/'' \<notin> set (a @ b)"
  by simp

lemma backup_name_valid:
  "CHR ''/'' \<notin> set (basename P) \<Longrightarrow> validName (getBackupFilename P (generateTimestamp d))"
  using generateTimestamp_no_slash [of d] generateTimestamp_length [of d]
  by (intro validName_long) (simp_all add: getBackupFilename_def)

lemma emergency_name_valid:
  "CHR ''/'' \<notin> set (basename P) \<Longrightarrow>
   validName (basename P @ ''.emergency.'' @ generateTimestamp d)"
  using generateTimestamp_no_slash [of d]
  by (intro validName_long) simp_all

lemma emergency_meta_name_valid:
  "CHR ''/'' \<notin> set (basename P) \<Longrightarrow>
   validName (parsedName (basename P) @ ''.emergency.'' @ generateTimestamp d @ ''.meta.json'')"
  using generateTimestamp_no_slash [of d] parsedName_chars [of "basename P"]
  by (intro validName_long) auto

lemma createEmergencyBackup_induct:
  assumes name: "CHR ''/'' \<notin> set (basename P)" and Q0: "Q r"
    and mk: "\<And>p a b. prefix (EMERGENCY_BACKUP_DIR cfg) p \<Longrightarrow> mkdirp p a = Some b \<Longrightarrow> Q a \<Longrightarrow> Q b"
    and wr: "\<And>p c a b. prefix (EMERGENCY_BACKUP_DIR cfg) p \<Longrightarrow> writeNode p c a = Some b \<Longrightarrow> Q a \<Longrightarrow> Q b"
  shows "Q (snd (createEmergencyBackup cfg now P r))"
proof (cases "existsSync r P")
  case False
  with Q0 show ?thesis by (simp add: createEmergencyBackup_def)
next
  case ex: True
  let ?em = "EMERGENCY_BACKUP_DIR cfg"
  let ?ts = "generateTimestamp now"
  let ?E = "(?em @ dirname P) @ [basename P @ ''.emergency.'' @ ?ts]"
  let ?EM = "?em @ [parsedName (basename P) @ ''.emergency.'' @ ?ts @ ''.meta.json'']"
  have jE: "joinPath (?em @ dirname P) (basename P @ ''.emergency.'' @ ?ts) = ?E"
    by (rule joinPath_validName [OF emergency_name_valid [OF name]])
  have jM: "joinPath ?em (parsedName (basename P) @ ''.emergency.'' @ ?ts @ ''.meta.json'') = ?EM"
    by (rule joinPath_validName [OF emergency_meta_name_valid [OF name]])
  let ?md = "Json (createBackupMetadata P ?ts ?E (Some ''Emergency backup created before restoration''))"
  have unfold: "createEmergencyBackup cfg now P r =
     (case ensureEmergencyBackupDir cfg r of
        Inl e \<Rightarrow> (None, r)
      | Inr root1 \<Rightarrow>
         (case mkdirp (?em @ dirname P) root1 of
            None \<Rightarrow> (None, root1)
          | Some root2 \<Rightarrow>
             (case copyFile P ?E root2 of
                Inl e \<Rightarrow> (None, root2)
              | Inr root3 \<Rightarrow>
                 (case writeNode ?EM ?md root3 of
                    None \<Rightarrow> (None, root3)
                  | Some root4 \<Rightarrow> (Some ?E, root4)))))"
    using ex unfolding createEmergencyBackup_def Let_def jE jM mkdirRecursive_def writeFile_def
    by (simp split: sum.splits option.splits)
  show ?thesis
  proof (cases "ensureEmergencyBackupDir cfg r")
    case (Inl e)
    show ?thesis unfolding unfold Inl by (simp add: Q0)
  next
    case e1: (Inr r1)
    then have q1: "Q r1"
      using Q0 mk [of ?em r r1]
      by (auto simp: ensureEmergencyBackupDir_def mkdirRecursive_def split: if_splits option.splits)
    show ?thesis
    proof (cases "mkdirp (?em @ dirname P) r1")
      case None
      show ?thesis unfolding unfold e1 sum.case None by (simp add: q1)
    next
      case e2: (Some r2)
      then have q2: "Q r2" using mk [of "?em @ dirname P" r1 r2] q1 by simp
      show ?thesis
      proof (cases "copyFile P ?E r2")
        case (Inl e)
        show ?thesis unfolding unfold e1 sum.case e2 option.case Inl by (simp add: q2)
      next
        case e3: (Inr r3)
        then obtain c where "writeNode ?E c r2 = Some r3"
          by (auto simp: copyFile_def split: option.splits node.splits)
        then have q3: "Q r3" using wr [of ?E c r2 r3] q2 by simp
        show ?thesis
        proof (cases "writeNode ?EM ?md r3")
          case None
          show ?thesis unfolding unfold e1 sum.case e2 option.case e3 None by (simp add: q3)
        next
          case (Some r4)
          then have q4: "Q r4" using wr [of ?EM ?md r3 r4] q3 by simp
          show ?thesis unfolding unfold e1 sum.case e2 option.case e3 Some by (simp add: q4)
        qed
      qed
    qed
  qed
qed

lemma emergency_keeps_file:
  assumes "CHR ''/'' \<notin> set (basename P)" "\<not> prefix (EMERGENCY_BACKUP_DIR cfg) q"
    and "lookup q r = Some (File x)"
  shows "lookup q (snd (createEmergencyBackup cfg now P r)) = Some (File x)"
proof (rule createEmergencyBackup_induct [OF assms(1), where Q = "\<lambda>a. lookup q a = Some (File x)"])
  show "lookup q r = Some (File x)" by fact
next
  fix p a b
  assume "mkdirp p a = Some b" "lookup q a = Some (File x)"
  then show "lookup q b = Some (File x)" by (rule file_fwd_mkdirp [rotated])
next
  fix p c a b
  assume "prefix (EMERGENCY_BACKUP_DIR cfg) p" "writeNode p c a = Some b" "lookup q a = Some (File x)"
  with assms(2) show "lookup q b = Some (File x)"
    using file_fwd_write [of q a x p c b] by blast
qed

lemma emergency_keeps_store:
  assumes "CHR ''/'' \<notin> set (basename P)"
    and "\<not> prefix (BACKUP_DIR cfg) (EMERGENCY_BACKUP_DIR cfg)"
    and "\<not> prefix (EMERGENCY_BACKUP_DIR cfg) (BACKUP_DIR cfg)"
    and "storeConsistent cfg P r"
  shows "storeConsistent cfg P (snd (createEmergencyBackup cfg now P r))"
proof (rule createEmergencyBackup_induct [OF assms(1), where Q = "storeConsistent cfg P"])
  show "storeConsistent cfg P r" by fact
next
  fix p a b
  assume "mkdirp p a = Some b" "storeConsistent cfg P a"
  then show "storeConsistent cfg P b" by (rule storeConsistent_mkdirp [rotated])
next
  fix p c a b
  assume p: "prefix (EMERGENCY_BACKUP_DIR cfg) p" and w: "writeNode p c a = Some b"
    and s: "storeConsistent cfg P a"
  have "\<not> prefix (BACKUP_DIR cfg) p"
    using p assms(2,3) prefix_same_cases by blast
  with storeConsistent_write_other [OF s w] show "storeConsistent cfg P b" by blast
qed

text \<open>The search of the store and the restore.\<close>

lemma mkdirp_File: "mkdirp p (File c) = None"
  by (cases p) simp_all

lemma metadata_filename: "getBackupMetadataFilename (d @ [n]) = d @ [n @ ''.meta.json'']"
  by (simp add: getBackupMetadataFilename_def appendToPath_def basename_def)

lemma backup_join:
  "CHR ''/'' \<notin> set (basename P) \<Longrightarrow>
   joinPath (getBackupDir cfg P) (getBackupFilename P (generateTimestamp d)) =
     getBackupDir cfg P @ [getBackupFilename P (generateTimestamp d)]"
  by (rule joinPath_validName [OF backup_name_valid])

lemma endsWith_append: "endsWith (n @ s) s"
  by (auto simp: endsWith_def suffix_def)

lemma not_under_emergency:
  assumes "\<not> prefix (BACKUP_DIR cfg) (EMERGENCY_BACKUP_DIR cfg)"
    and "\<not> prefix (EMERGENCY_BACKUP_DIR cfg) (BACKUP_DIR cfg)"
  shows "\<not> prefix (EMERGENCY_BACKUP_DIR cfg) (getBackupDir cfg P @ s)"
proof
  assume "prefix (EMERGENCY_BACKUP_DIR cfg) (getBackupDir cfg P @ s)"
  moreover have "prefix (BACKUP_DIR cfg) (getBackupDir cfg P @ s)"
    by (simp add: getBackupDir_def)
  ultimately show False using assms prefix_same_cases by blast
qed

lemma under_store: "\<not> prefix (BACKUP_DIR cfg) P \<Longrightarrow> getBackupDir cfg P @ s \<noteq> P"
proof
  assume a: "\<not> prefix (BACKUP_DIR cfg) P" and "getBackupDir cfg P @ s = P"
  then have "P = BACKUP_DIR cfg @ (dirname P @ s)" by (simp add: getBackupDir_def)
  then have "prefix (BACKUP_DIR cfg) P" by (rule prefixI)
  with a show False by simp
qed

lemma listed_backup:
  assumes sc: "storeConsistent cfg P r"
    and f: "findBackupsByFilePath rt cfg r P = Inr backups"
    and b: "b \<in> set backups"
  shows "\<exists>ts. timestamp b = Some ts \<and>
            backup_path b = Some (getBackupDir cfg P @ [getBackupFilename P ts])"
proof -
  from f obtain files where fa: "findAllBackupMetadataFiles r (BACKUP_DIR cfg) = Inr files"
    and bs: "backups = sortBy (newestFirst rt)
        (filter (\<lambda>metadata. original_path metadata = Some P \<and> \<not> isFolderMetadata r metadata)
           (metadataOf r files))"
    by (auto simp: findBackupsByFilePath_def split: sum.splits)
  from b bs have op: "original_path b = Some P" and "b \<in> set (metadataOf r files)"
    by (simp_all add: set_sortBy)
  then obtain q where q: "q \<in> set files" "readBackupMetadata r q = Some b"
    by (auto simp: set_metadataOf)
  from fa q(1) have "prefix (BACKUP_DIR cfg) q \<and> endsWith (basename q) ''.meta.json''"
    by (auto simp: findAllBackupMetadataFiles_def split: option.splits node.splits dest: items_sound)
  with sc q(2) op show ?thesis unfolding storeConsistent_def by blast
qed

lemma listed_complete:
  assumes M: "lookup (getBackupDir cfg P @ [n @ ''.meta.json'']) r = Some (File (Json md))"
    and op: "original_path md = Some P" and bp: "backup_path md = Some B"
    and Bf: "lookup B r = Some (File c)"
  shows "\<exists>backups. findBackupsByFilePath rt cfg r P = Inr backups \<and> md \<in> set backups"
proof -
  let ?bk = "BACKUP_DIR cfg"
  let ?s = "dirname P @ [n @ ''.meta.json'']"
  have M': "lookup (?bk @ ?s) r = Some (File (Json md))"
    using M by (simp add: getBackupDir_def)
  then obtain nd where nd: "lookup ?bk r = Some nd" "lookup ?s nd = Some (File (Json md))"
    by (auto simp: lookup_append split: option.splits)
  have "?s \<noteq> []" by simp
  with nd(2) obtain es where es: "nd = Dir es" by (cases nd) simp_all
  have e: "endsWith (basename ?s) ''.meta.json''"
    by (simp add: basename_def endsWith_append)
  from nd(2) have "lookup ?s (Dir (sortedEntries es)) = Some (File (Json md))"
    using lookup_sortedNode [of ?s "Dir es"] by (simp add: es)
  from items_complete [OF this e, of ?bk] have "?bk @ ?s \<in> set (items ?bk (sortedEntries es))" .
  moreover have "readBackupMetadata r (?bk @ ?s) = Some md"
    using M' by (rule readBackupMetadata_Json)
  ultimately have "md \<in> set (metadataOf r (items ?bk (sortedEntries es)))"
    unfolding set_metadataOf by blast
  moreover have "\<not> isFolderMetadata r md"
    using bp Bf by (simp add: isFolderMetadata_def isDirectory_def)
  ultimately show ?thesis using op nd(1) es
    by (simp add: findBackupsByFilePath_def findAllBackupMetadataFiles_def set_sortBy)
qed

lemma emergency_file_bwd:
  assumes "CHR ''/'' \<notin> set (basename P)" "\<not> prefix (EMERGENCY_BACKUP_DIR cfg) q"
    and "lookup q (snd (createEmergencyBackup cfg now P r)) = Some (File x)"
  shows "lookup q r = Some (File x)"
proof -
  have "lookup q (snd (createEmergencyBackup cfg now P r)) = Some (File x) \<longrightarrow>
        lookup q r = Some (File x)"
  proof (rule createEmergencyBackup_induct [OF assms(1),
        where Q = "\<lambda>a. lookup q a = Some (File x) \<longrightarrow> lookup q r = Some (File x)"])
    show "lookup q r = Some (File x) \<longrightarrow> lookup q r = Some (File x)" by simp
  next
    fix p a b
    assume "mkdirp p a = Some b" "lookup q a = Some (File x) \<longrightarrow> lookup q r = Some (File x)"
    then show "lookup q b = Some (File x) \<longrightarrow> lookup q r = Some (File x)"
      using file_bwd_mkdirp [of q b x p a] by blast
  next
    fix p c a b
    assume "prefix (EMERGENCY_BACKUP_DIR cfg) p" "writeNode p c a = Some b"
      "lookup q a = Some (File x) \<longrightarrow> lookup q r = Some (File x)"
    with assms(2) show "lookup q b = Some (File x) \<longrightarrow> lookup q r = Some (File x)"
      using file_bwd_write [of q b x p c a] by blast
  qed
  with assms(3) show ?thesis by simp
qed

lemma removeBackups_keeps:
  "\<forall>b \<in> set bs. backup_path b \<noteq> Some q \<Longrightarrow> lookup q r = Some (File c) \<Longrightarrow>
   lookup q (removeBackups bs r) = Some (File c)"
proof (induction bs arbitrary: r)
  case Nil
  then show ?case by simp
next
  case (Cons b bs)
  show ?case
  proof (cases "backup_path b")
    case None
    with Cons show ?thesis by simp
  next
    case (Some bp)
    with Cons.prems have ne: "q \<noteq> bp" by auto
    show ?thesis
    proof (cases "unlinkNode bp r")
      case None
      with Some Cons show ?thesis by (simp add: unlinkSync_def)
    next
      case u: (Some r')
      from file_fwd_unlink [OF Cons.prems(2) u ne] have "lookup q r' = Some (File c)" .
      with Cons.IH [of r'] Cons.prems(1) Some u show ?thesis by (simp add: unlinkSync_def)
    qed
  qed
qed

lemma restoreBackup_target:
  assumes name: "CHR ''/'' \<notin> set (basename P)"
    and oe: "\<not> prefix (EMERGENCY_BACKUP_DIR cfg) P"
    and r1: "\<not> prefix (BACKUP_DIR cfg) (EMERGENCY_BACKUP_DIR cfg)"
    and r2: "\<not> prefix (EMERGENCY_BACKUP_DIR cfg) (BACKUP_DIR cfg)"
    and sc: "storeConsistent cfg P r" and Pf: "lookup P r = Some (File x)"
  shows "lookup P (snd (restoreBackup rt cfg now P T flag r)) = Some (File x) \<or>
         (\<exists>y. lookup (getBackupDir cfg P @ [getBackupFilename P T]) r = Some (File y) \<and>
              lookup P (snd (restoreBackup rt cfg now P T flag r)) = Some (File y))"
proof (cases "findBackupsByFilePath rt cfg r P")
  case (Inl e)
  then show ?thesis using Pf by (simp add: restoreBackup_def)
next
  case (Inr backups)
  let ?B = "getBackupDir cfg P @ [getBackupFilename P T]"
  show ?thesis
  proof (cases "find (\<lambda>b. timestamp b = Some T) backups")
    case None
    then show ?thesis using Inr Pf by (simp add: restoreBackup_def)
  next
    case (Some b)
    from find_SomeD [OF Some] have "b \<in> set backups" "timestamp b = Some T" by simp_all
    with listed_backup [OF sc Inr, of b] have bp: "backup_path b = Some ?B" by auto
    define root1 where "root1 = (if flag then snd (createEmergencyBackup cfg now P r) else r)"
    have P1: "lookup P root1 = Some (File x)"
      using emergency_keeps_file [OF name oe Pf] Pf by (simp add: root1_def)
    have nB: "\<not> prefix (EMERGENCY_BACKUP_DIR cfg) ?B" by (rule not_under_emergency [OF r1 r2])
    have B1: "lookup ?B r = Some (File y)" if "lookup ?B root1 = Some (File y)" for y
      using that emergency_file_bwd [OF name nB, of now r y] by (cases flag) (simp_all add: root1_def)
    have rb: "snd (restoreBackup rt cfg now P T flag r) = root1 \<or>
        (\<exists>root2. copyFile ?B P root1 = Inr root2 \<and> snd (restoreBackup rt cfg now P T flag r) = root2)"
    proof -
      have "restoreBackup rt cfg now P T flag r =
          (if \<not> existsSync root1 ?B then (Inl (BackupFileNotFound (Some ?B)), root1)
           else if \<not> existsSync root1 P then (Inl (OriginalFileNotFound P), root1)
           else (case copyFile ?B P root1 of
                   Inl e \<Rightarrow> (Inl e, root1)
                 | Inr root2 \<Rightarrow> (Inr (), root2)))"
        unfolding restoreBackup_def Inr sum.case Some option.case Let_def bp root1_def
        by (rule refl)
      then show ?thesis by (auto split: sum.splits if_splits)
    qed
    then show ?thesis
    proof
      assume "snd (restoreBackup rt cfg now P T flag r) = root1"
      with P1 show ?thesis by simp
    next
      assume "\<exists>root2. copyFile ?B P root1 = Inr root2 \<and> snd (restoreBackup rt cfg now P T flag r) = root2"
      then obtain root2 where c: "copyFile ?B P root1 = Inr root2"
        and s: "snd (restoreBackup rt cfg now P T flag r) = root2" by blast
      from c obtain y where y: "lookup ?B root1 = Some (File y)" "writeNode P y root1 = Some root2"
        by (auto simp: copyFile_def split: option.splits node.splits)
      from writeNode_same [OF y(2)] B1 [OF y(1)] s show ?thesis by simp
    qed
  qed
qed

lemma restoreBackup_success:
  assumes name: "CHR ''/'' \<notin> set (basename P)" and ne: "P \<noteq> []"
    and oe: "\<not> prefix (EMERGENCY_BACKUP_DIR cfg) P"
    and r1: "\<not> prefix (BACKUP_DIR cfg) (EMERGENCY_BACKUP_DIR cfg)"
    and r2: "\<not> prefix (EMERGENCY_BACKUP_DIR cfg) (BACKUP_DIR cfg)"
    and sc: "storeConsistent cfg P r" and Pf: "lookup P r = Some (File x)"
    and Bf: "lookup (getBackupDir cfg P @ [getBackupFilename P T]) r = Some (File c)"
    and Mf: "lookup (getBackupDir cfg P @ [getBackupFilename P T @ ''.meta.json'']) r =
               Some (File (Json (createBackupMetadata P T (getBackupDir cfg P @ [getBackupFilename P T]) ctx)))"
  shows "\<exists>r4. restoreBackup rt cfg now P T flag r = (Inr (), r4) \<and> lookup P r4 = Some (File c)"
proof -
  let ?B = "getBackupDir cfg P @ [getBackupFilename P T]"
  let ?md = "createBackupMetadata P T ?B ctx"
  have "\<exists>backups. findBackupsByFilePath rt cfg r P = Inr backups \<and> ?md \<in> set backups"
    by (rule listed_complete [OF Mf _ _ Bf]) (simp_all add: createBackupMetadata_def)
  then obtain backups where f: "findBackupsByFilePath rt cfg r P = Inr backups" and "?md \<in> set backups"
    by blast
  moreover have "timestamp ?md = Some T" by (simp add: createBackupMetadata_def)
  ultimately obtain b where fb: "find (\<lambda>b. timestamp b = Some T) backups = Some b"
    using find_exists [of ?md backups "\<lambda>b. timestamp b = Some T"] by blast
  from find_SomeD [OF fb] have "b \<in> set backups" "timestamp b = Some T" by simp_all
  with listed_backup [OF sc f, of b] have bp: "backup_path b = Some ?B" by auto
  define root1 where "root1 = (if flag then snd (createEmergencyBackup cfg now P r) else r)"
  have P1: "lookup P root1 = Some (File x)"
    using emergency_keeps_file [OF name oe Pf] Pf by (simp add: root1_def)
  have nB: "\<not> prefix (EMERGENCY_BACKUP_DIR cfg) ?B" by (rule not_under_emergency [OF r1 r2])
  have B1: "lookup ?B root1 = Some (File c)"
    using emergency_keeps_file [OF name nB Bf] Bf by (simp add: root1_def)
  from write_existing [OF P1 ne] obtain r4 where w: "writeNode P c root1 = Some r4" by blast
  have "restoreBackup rt cfg now P T flag r = (Inr (), r4)"
    using f fb bp P1 B1 w unfolding root1_def
    by (cases flag) (simp_all add: restoreBackup_def Let_def existsSync_def copyFile_def)
  with writeNode_same [OF w] show ?thesis by simp
qed

text \<open>The handler of \<open>backup_restore\<close>.\<close>

lemma storeConsistent_items:
  assumes bk: "lookup (BACKUP_DIR cfg) r = Some (Dir es)"
    and good: "\<forall>q \<in> set (items (BACKUP_DIR cfg) (sortedEntries es)). \<forall>m. readBackupMetadata r q = Some m \<longrightarrow>
        original_path m = Some P \<longrightarrow>
        (\<exists>ts. timestamp m = Some ts \<and>
              backup_path m = Some (getBackupDir cfg P @ [getBackupFilename P ts]))"
  shows "storeConsistent cfg P r"
  unfolding storeConsistent_def
proof (intro allI impI)
  fix q m
  assume a: "prefix (BACKUP_DIR cfg) q \<and> endsWith (basename q) ''.meta.json'' \<and>
       readBackupMetadata r q = Some m \<and> original_path m = Some P"
  then obtain s where q: "q = BACKUP_DIR cfg @ s" by (auto elim: prefixE)
  from a have l: "lookup q r = Some (File (Json m))" by (blast dest: readBackupMetadata_orig)
  with bk q have ls: "lookup s (Dir es) = Some (File (Json m))" by (simp add: lookup_append)
  then have "s \<noteq> []" by auto
  with a q have e: "endsWith (basename s) ''.meta.json''" by (simp add: basename_def)
  from ls have "lookup s (Dir (sortedEntries es)) = Some (File (Json m))"
    using lookup_sortedNode [of s "Dir es"] by simp
  from items_complete [OF this e, of "BACKUP_DIR cfg"]
  have "q \<in> set (items (BACKUP_DIR cfg) (sortedEntries es))"
    by (simp add: q)
  with good a show "\<exists>ts. timestamp m = Some ts \<and>
       backup_path m = Some (getBackupDir cfg P @ [getBackupFilename P ts])" by blast
qed

lemma fs_snd_result:
  "fs (snd (case x of (Inl e, root3) \<Rightarrow> (Inl e, setFs w root3)
                   | (Inr u, root3) \<Rightarrow> (Inr (g u), setFs w root3))) = snd x"
  by (auto simp: setFs_def split: prod.splits sum.splits)

lemma backup_restore_found:
  assumes ne: "P \<noteq> []" and Pf: "lookup P (fs w) = Some (File x)" and nc: "\<not> isCancelled opId w"
    and T: "T \<noteq> []" and fb: "findBackupByTimestamp cfg (fs w) P T = Some b"
  shows "backup_restore rt cfg clock opId (Some P) T flag w =
     (case restoreBackup rt cfg (clock 1) P T flag
             (if flag then snd (createEmergencyBackup cfg (clock 0) P (fs w)) else fs w) of
        (Inl e, root3) \<Rightarrow> (Inl e, setFs w root3)
      | (Inr u, root3) \<Rightarrow> (Inr (JsonResponse (RestoreResult P T)), setFs w root3))"
proof -
  from ne have "P = butlast P @ [last P]" by simp
  with Pf have "lookup (butlast P @ [last P]) (fs w) = Some (File x)" by simp
  then have "mkdirp (dirname P) (fs w) = Some (fs w)"
    unfolding dirname_def by (rule mkdirp_existing)
  then show ?thesis
    by (simp add: backup_restore_def mkdirRecursive_def Let_def nc T fb)
qed

lemma backup_restore_target:
  assumes name: "CHR ''/'' \<notin> set (basename P)" and ne: "P \<noteq> []"
    and oe: "\<not> prefix (EMERGENCY_BACKUP_DIR cfg) P"
    and r1: "\<not> prefix (BACKUP_DIR cfg) (EMERGENCY_BACKUP_DIR cfg)"
    and r2: "\<not> prefix (EMERGENCY_BACKUP_DIR cfg) (BACKUP_DIR cfg)"
    and sc: "storeConsistent cfg P (fs w)" and Pf: "lookup P (fs w) = Some (File x)"
    and nc: "\<not> isCancelled opId w" and T: "T \<noteq> []"
  shows "lookup P (fs (snd (backup_restore rt cfg clock opId (Some P) T flag w))) = Some (File x) \<or>
         (\<exists>y. lookup (getBackupDir cfg P @ [getBackupFilename P T]) (fs w) = Some (File y) \<and>
              lookup P (fs (snd (backup_restore rt cfg clock opId (Some P) T flag w))) = Some (File y))"
proof (cases "findBackupByTimestamp cfg (fs w) P T")
  case None
  then show ?thesis using Pf T by (simp add: backup_restore_def)
next
  case (Some b)
  let ?B = "getBackupDir cfg P @ [getBackupFilename P T]"
  define root2 where "root2 = (if flag then snd (createEmergencyBackup cfg (clock 0) P (fs w)) else fs w)"
  have sc2: "storeConsistent cfg P root2"
    using emergency_keeps_store [OF name r1 r2 sc] sc by (simp add: root2_def)
  have P2: "lookup P root2 = Some (File x)"
    using emergency_keeps_file [OF name oe Pf] Pf by (simp add: root2_def)
  have nB: "\<not> prefix (EMERGENCY_BACKUP_DIR cfg) ?B" by (rule not_under_emergency [OF r1 r2])
  have B2: "lookup ?B (fs w) = Some (File y)" if "lookup ?B root2 = Some (File y)" for y
    using that emergency_file_bwd [OF name nB, of "clock 0" "fs w" y]
    by (cases flag) (simp_all add: root2_def)
  have s: "fs (snd (backup_restore rt cfg clock opId (Some P) T flag w)) =
           snd (restoreBackup rt cfg (clock 1) P T flag root2)"
    unfolding backup_restore_found [OF ne Pf nc T Some] root2_def by (rule fs_snd_result)
  from restoreBackup_target [OF name oe r1 r2 sc2 P2, of rt "clock 1" T flag] B2
  show ?thesis unfolding s by blast
qed

lemma backup_restore_success:
  assumes name: "CHR ''/'' \<notin> set (basename P)" and ne: "P \<noteq> []"
    and oe: "\<not> prefix (EMERGENCY_BACKUP_DIR cfg) P"
    and r1: "\<not> prefix (BACKUP_DIR cfg) (EMERGENCY_BACKUP_DIR cfg)"
    and r2: "\<not> prefix (EMERGENCY_BACKUP_DIR cfg) (BACKUP_DIR cfg)"
    and sc: "storeConsistent cfg P (fs w)" and Pf: "lookup P (fs w) = Some (File x)"
    and nc: "\<not> isCancelled opId w" and T: "T = generateTimestamp d"
    and Bf: "lookup (getBackupDir cfg P @ [getBackupFilename P T]) (fs w) = Some (File c)"
    and Mf: "lookup (getBackupDir cfg P @ [getBackupFilename P T @ ''.meta.json'']) (fs w) =
               Some (File (Json (createBackupMetadata P T (getBackupDir cfg P @ [getBackupFilename P T]) ctx)))"
  shows "fst (backup_restore rt cfg clock opId (Some P) T flag w) = Inr (JsonResponse (RestoreResult P T)) \<and>
         lookup P (fs (snd (backup_restore rt cfg clock opId (Some P) T flag w))) = Some (File c)"
proof -
  let ?B = "getBackupDir cfg P @ [getBackupFilename P T]"
  let ?md = "createBackupMetadata P T ?B ctx"
  have Tne: "T \<noteq> []" using generateTimestamp_length [of d] T by auto
  have j: "joinPath (getBackupDir cfg P) (getBackupFilename P T) = ?B"
    unfolding T by (rule backup_join [OF name])
  have a: "joinAppend (getBackupDir cfg P) (getBackupFilename P T) ''.meta.json'' =
      getBackupDir cfg P @ [getBackupFilename P T @ ''.meta.json'']"
    unfolding T by (rule joinAppend_validName [OF backup_name_valid [OF name]])
  have nf: "\<not> isFolderMetadata (fs w) ?md"
    using Bf by (simp add: isFolderMetadata_def isDirectory_def createBackupMetadata_def)
  have fb: "findBackupByTimestamp cfg (fs w) P T = Some ?md"
    unfolding findBackupByTimestamp_def Let_def a
    using Mf nf by (simp add: existsSync_def readBackupMetadata_def)
  define root2 where "root2 = (if flag then snd (createEmergencyBackup cfg (clock 0) P (fs w)) else fs w)"
  have sc2: "storeConsistent cfg P root2"
    using emergency_keeps_store [OF name r1 r2 sc] sc by (simp add: root2_def)
  have P2: "lookup P root2 = Some (File x)"
    using emergency_keeps_file [OF name oe Pf] Pf by (simp add: root2_def)
  have nB: "\<not> prefix (EMERGENCY_BACKUP_DIR cfg) ?B" by (rule not_under_emergency [OF r1 r2])
  have nM: "\<not> prefix (EMERGENCY_BACKUP_DIR cfg) (getBackupDir cfg P @ [getBackupFilename P T @ ''.meta.json''])"
    by (rule not_under_emergency [OF r1 r2])
  have B2: "lookup ?B root2 = Some (File c)"
    using emergency_keeps_file [OF name nB Bf] Bf by (simp add: root2_def)
  have M2: "lookup (getBackupDir cfg P @ [getBackupFilename P T @ ''.meta.json'']) root2 = Some (File (Json ?md))"
    using emergency_keeps_file [OF name nM Mf] Mf by (simp add: root2_def)
  from restoreBackup_success [OF name ne oe r1 r2 sc2 P2 B2 M2, of rt "clock 1" flag]
  obtain r4 where r4: "restoreBackup rt cfg (clock 1) P T flag root2 = (Inr (), r4)"
    "lookup P r4 = Some (File c)" by blast
  show ?thesis
    unfolding backup_restore_found [OF ne Pf nc Tne fb] root2_def [symmetric] r4
    by (simp add: setFs_def r4)
qed

lemma callTool_restore:
  "callTool rt cfg clock uuid (Backup_restore (Some P) T flag) w =
     (case backup_restore rt cfg clock uuid (Some P) T flag (createOperation uuid ''backup_restore'' w) of
        (Inl e, wr) \<Rightarrow> (ErrorResponse e (Some uuid), wr)
      | (Inr resp, wr) \<Rightarrow> (resp, wr))"
  by (simp add: callTool_def toolName_def Let_def)

lemma snd_callTool_restore:
  "snd (callTool rt cfg clock uuid (Backup_restore (Some P) T flag) w) =
   snd (backup_restore rt cfg clock uuid (Some P) T flag (createOperation uuid ''backup_restore'' w))"
  unfolding callTool_restore by (auto split: prod.splits sum.splits)

lemma fst_callTool_restore:
  "fst (backup_restore rt cfg clock uuid (Some P) T flag (createOperation uuid ''backup_restore'' w)) = Inr resp \<Longrightarrow>
   fst (callTool rt cfg clock uuid (Backup_restore (Some P) T flag) w) = resp"
  unfolding callTool_restore by (auto split: prod.splits sum.splits)

lemma cleanup_result:
  assumes "cleanupOldBackups rt cfg P root3 = (Inr kept, root4)"
  shows "\<exists>backups bs. findBackupsByFilePath rt cfg root3 P = Inr backups \<and>
           set bs \<subseteq> set backups \<and> root4 = removeBackups bs root3"
proof (cases "findBackupsByFilePath rt cfg root3 P")
  case (Inl e)
  with assms show ?thesis by (simp add: cleanupOldBackups_def)
next
  case (Inr backups)
  let ?bs = "take (nat (int (length backups) - MAX_VERSIONS cfg)) (sortBy (oldestFirst rt) backups)"
  have sub: "set ?bs \<subseteq> set backups"
    using set_take_subset [of _ "sortBy (oldestFirst rt) backups"] by (simp add: set_sortBy)
  from assms Inr have "root4 = removeBackups [] root3 \<or> root4 = removeBackups ?bs root3"
    by (auto simp: cleanupOldBackups_def Let_def split: if_splits)
  with Inr sub show ?thesis by (metis empty_set empty_subsetI)
qed

text \<open>The handler of \<open>backup_create\<close>.\<close>

lemma backup_create_result:
  assumes cr: "callTool rt cfg clock uuid (Backup_create (Some P) ctx) w =
                 (JsonResponse (CreateResult md kept), wc)"
    and Pf: "lookup P (fs w) = Some (File c)"
    and name: "CHR ''/'' \<notin> set (basename P)"
    and ob: "\<not> prefix (BACKUP_DIR cfg) P"
    and sc: "storeConsistent cfg P (fs w)"
  shows "md = createBackupMetadata P (generateTimestamp (clock 0))
               (getBackupDir cfg P @ [getBackupFilename P (generateTimestamp (clock 0))]) ctx \<and>
         P \<noteq> [] \<and>
         storeConsistent cfg P (fs wc) \<and>
         lookup P (fs wc) = Some (File c) \<and>
         (lookup (getBackupDir cfg P @ [getBackupFilename P (generateTimestamp (clock 0))]) (fs wc) = None \<or>
          lookup (getBackupDir cfg P @ [getBackupFilename P (generateTimestamp (clock 0))]) (fs wc) = Some (File c)) \<and>
         (lookup (getBackupDir cfg P @ [getBackupFilename P (generateTimestamp (clock 0)) @ ''.meta.json'']) (fs wc) = None \<or>
          lookup (getBackupDir cfg P @ [getBackupFilename P (generateTimestamp (clock 0)) @ ''.meta.json'']) (fs wc) =
            Some (File (Json md)))"
proof -
  let ?T = "generateTimestamp (clock 0)"
  let ?B = "getBackupDir cfg P @ [getBackupFilename P ?T]"
  let ?M = "getBackupDir cfg P @ [getBackupFilename P ?T @ ''.meta.json'']"
  let ?md = "createBackupMetadata P ?T ?B ctx"
  let ?w0 = "createOperation uuid (toolName (Backup_create (Some P) ctx)) w"
  from cr have bc: "backup_create rt cfg clock uuid (Some P) ctx ?w0 =
      (Inr (JsonResponse (CreateResult md kept)), wc)"
    by (auto simp: callTool_def Let_def split: prod.splits sum.splits)
  have isF: "validateFileExists (fs w) P = Inr ()"
    by (simp add: validateFileExists_def isFile_def Pf)
  have nc: "isCancelled uuid ?w0 = False" by simp
  have unf: "backup_create rt cfg clock uuid (Some P) ctx ?w0 =
     (case mkdirRecursive (getBackupDir cfg P) (fs w) of
        Inl e \<Rightarrow> (Inl e, ?w0)
      | Inr root1 \<Rightarrow>
         (case copyFile P ?B root1 of
            Inl e \<Rightarrow> (Inl e, setFs ?w0 root1)
          | Inr root2 \<Rightarrow>
             (case saveBackupMetadata ?M ?md root2 of
                Inl e \<Rightarrow> (Inl e, setFs ?w0 root2)
              | Inr root3 \<Rightarrow>
                 (case cleanupOldBackups rt cfg P root3 of
                    (Inl e, root4) \<Rightarrow> (Inl e, setFs ?w0 root4)
                  | (Inr versionsKept, root4) \<Rightarrow>
                      (Inr (JsonResponse (CreateResult ?md versionsKept)), setFs ?w0 root4)))))"
    unfolding backup_create_def option.case fs_createOperation isF sum.case Let_def
      backup_join [OF name] metadata_filename nc if_False
    by (rule refl)
  from bc have bc0: "(case mkdirRecursive (getBackupDir cfg P) (fs w) of
        Inl e \<Rightarrow> (Inl e, ?w0)
      | Inr root1 \<Rightarrow>
         (case copyFile P ?B root1 of
            Inl e \<Rightarrow> (Inl e, setFs ?w0 root1)
          | Inr root2 \<Rightarrow>
             (case saveBackupMetadata ?M ?md root2 of
                Inl e \<Rightarrow> (Inl e, setFs ?w0 root2)
              | Inr root3 \<Rightarrow>
                 (case cleanupOldBackups rt cfg P root3 of
                    (Inl e, root4) \<Rightarrow> (Inl e, setFs ?w0 root4)
                  | (Inr versionsKept, root4) \<Rightarrow>
                      (Inr (JsonResponse (CreateResult ?md versionsKept)), setFs ?w0 root4))))) =
      (Inr (JsonResponse (CreateResult md kept)), wc)"
    unfolding unf .
  obtain root1 where m0: "mkdirRecursive (getBackupDir cfg P) (fs w) = Inr root1"
    using bc0 by (cases "mkdirRecursive (getBackupDir cfg P) (fs w)") simp_all
  have bc1: "(case copyFile P ?B root1 of
            Inl e \<Rightarrow> (Inl e, setFs ?w0 root1)
          | Inr root2 \<Rightarrow>
             (case saveBackupMetadata ?M ?md root2 of
                Inl e \<Rightarrow> (Inl e, setFs ?w0 root2)
              | Inr root3 \<Rightarrow>
                 (case cleanupOldBackups rt cfg P root3 of
                    (Inl e, root4) \<Rightarrow> (Inl e, setFs ?w0 root4)
                  | (Inr versionsKept, root4) \<Rightarrow>
                      (Inr (JsonResponse (CreateResult ?md versionsKept)), setFs ?w0 root4)))) =
      (Inr (JsonResponse (CreateResult md kept)), wc)"
    using bc0 unfolding m0 sum.case .
  obtain root2 where cp: "copyFile P ?B root1 = Inr root2"
    using bc1 by (cases "copyFile P ?B root1") simp_all
  have bc2: "(case saveBackupMetadata ?M ?md root2 of
                Inl e \<Rightarrow> (Inl e, setFs ?w0 root2)
              | Inr root3 \<Rightarrow>
                 (case cleanupOldBackups rt cfg P root3 of
                    (Inl e, root4) \<Rightarrow> (Inl e, setFs ?w0 root4)
                  | (Inr versionsKept, root4) \<Rightarrow>
                      (Inr (JsonResponse (CreateResult ?md versionsKept)), setFs ?w0 root4))) =
      (Inr (JsonResponse (CreateResult md kept)), wc)"
    using bc1 unfolding cp sum.case .
  obtain root3 where sv0: "saveBackupMetadata ?M ?md root2 = Inr root3"
    using bc2 by (cases "saveBackupMetadata ?M ?md root2") simp_all
  have bc3: "(case cleanupOldBackups rt cfg P root3 of
                    (Inl e, root4) \<Rightarrow> (Inl e, setFs ?w0 root4)
                  | (Inr versionsKept, root4) \<Rightarrow>
                      (Inr (JsonResponse (CreateResult ?md versionsKept)), setFs ?w0 root4)) =
      (Inr (JsonResponse (CreateResult md kept)), wc)"
    using bc2 unfolding sv0 sum.case .
  obtain res root4 where cl0: "cleanupOldBackups rt cfg P root3 = (res, root4)"
    by (cases "cleanupOldBackups rt cfg P root3")
  have bc4: "(case res of
               Inl e \<Rightarrow> (Inl e, setFs ?w0 root4)
             | Inr versionsKept \<Rightarrow>
                 (Inr (JsonResponse (CreateResult ?md versionsKept)), setFs ?w0 root4)) =
      (Inr (JsonResponse (CreateResult md kept)), wc)"
    using bc3 unfolding cl0 prod.case .
  then have res: "res = Inr kept" and md: "md = ?md" and wc0: "wc = setFs ?w0 root4"
    by (cases res; simp)+
  have cl: "cleanupOldBackups rt cfg P root3 = (Inr kept, root4)" using cl0 res by simp
  have wc: "fs wc = root4" by (simp add: wc0 setFs_def)
  from m0 have m: "mkdirp (getBackupDir cfg P) (fs w) = Some root1"
    by (simp add: mkdirRecursive_def split: option.splits)
  from sv0 have sv: "writeNode ?M (Json ?md) root2 = Some root3"
    by (simp add: saveBackupMetadata_def writeFile_def split: option.splits)
  have ne: "P \<noteq> []"
  proof
    assume "P = []"
    with Pf have "fs w = File c" by simp
    with m show False by (simp add: mkdirp_File)
  qed
  have PB: "P \<noteq> ?B" and PM: "P \<noteq> ?M"
    using under_store [OF ob] by metis+
  have BM: "?B \<noteq> ?M" by simp
  have P1: "lookup P root1 = Some (File c)" by (rule file_fwd_mkdirp [OF Pf m])
  with cp have w2: "writeNode ?B c root1 = Some root2"
    by (auto simp: copyFile_def split: option.splits)
  have P2: "lookup P root2 = Some (File c)" by (rule file_fwd_write [OF P1 w2 PB])
  have B2: "lookup ?B root2 = Some (File c)" by (rule writeNode_same [OF w2])
  have P3: "lookup P root3 = Some (File c)" by (rule file_fwd_write [OF P2 sv PM])
  have B3: "lookup ?B root3 = Some (File c)" by (rule file_fwd_write [OF B2 sv BM])
  have M3: "lookup ?M root3 = Some (File (Json ?md))" by (rule writeNode_same [OF sv])
  have sc1: "storeConsistent cfg P root1" by (rule storeConsistent_mkdirp [OF sc m])
  have "\<not> endsWith (basename ?B) ''.meta.json''"
    using not_meta_suffix [of "basename P" "clock 0"] by (simp add: basename_def getBackupFilename_def)
  then have sc2: "storeConsistent cfg P root2"
    using storeConsistent_write_other [OF sc1 w2] by blast
  have sc3: "storeConsistent cfg P root3"
    by (rule storeConsistent_write_desc [OF sc2 sv, of ?T]) (simp_all add: createBackupMetadata_def)
  from cleanup_result [OF cl] obtain backups bs where
    f: "findBackupsByFilePath rt cfg root3 P = Inr backups" and sub: "set bs \<subseteq> set backups"
    and r4: "root4 = removeBackups bs root3" by blast
  have "\<forall>b \<in> set bs. backup_path b \<noteq> Some P"
  proof
    fix b assume "b \<in> set bs"
    with sub have "b \<in> set backups" by blast
    from listed_backup [OF sc3 f this] obtain ts where
      "backup_path b = Some (getBackupDir cfg P @ [getBackupFilename P ts])" by blast
    with under_store [OF ob] show "backup_path b \<noteq> Some P" by simp
  qed
  then have P4: "lookup P root4 = Some (File c)"
    unfolding r4 using P3 by (rule removeBackups_keeps)
  have B4: "lookup ?B root4 = None \<or> lookup ?B root4 = Some (File c)"
    unfolding r4 by (rule removeBackups_fwd [OF B3])
  have M4: "lookup ?M root4 = None \<or> lookup ?M root4 = Some (File (Json ?md))"
    unfolding r4 by (rule removeBackups_fwd [OF M3])
  have sc4: "storeConsistent cfg P root4"
    unfolding r4 by (rule storeConsistent_removeBackups [OF sc3])
  from md ne sc4 P4 B4 M4 show ?thesis unfolding wc by blast
qed

lemma create_at_w1:
  "callTool rt0 cfg0 clock0 ''op-1'' (Backup_create (Some fileA) None) w1 =
     (JsonResponse (CreateResult (meta T4) 2), wCreated)"
  by (simp add: clock0_0 Let_def engine_eval w1_def store1_def wCreated_def storeCreated_def)

lemma store1_consistent: "storeConsistent cfg0 fileA (fs w1)"
  by (rule storeConsistent_items [where es = "[(''home'', Dir [(''u'', Dir [
        (''a.txt.'' @ T1, File (Bytes ''v1'')), (''a.txt.'' @ T1 @ ''.meta.json'', File (Json (meta T1)))])])]"])
     (simp_all add: w1_def store1_def cfg0_def fileA_def meta_def T1_def fs_eval
        getBackupDir_def getBackupFilename_def createBackupMetadata_def)



end
